theory Spec2Isabelle
  imports Main "HOL-Library.Sublist"
begin

section \<open>Go strings\<close>

text \<open>
  A Go \<^verbatim>\<open>string\<close> is a sequence of bytes; \<^typ>\<open>string\<close> (a list of 8-bit
  \<^typ>\<open>char\<close>) is that sequence, \<^verbatim>\<open>len(s)\<close> is \<^term>\<open>length s\<close> and
  \<^verbatim>\<open>s[i]\<close> is \<^term>\<open>s ! i\<close> for \<^prop>\<open>i < length s\<close>.
\<close>

text \<open>\<^verbatim>\<open>s[a:b]\<close>; every use below has \<open>a \<le> b \<le> len(s)\<close>, where Go does not panic.\<close>

definition slice :: "string \<Rightarrow> nat \<Rightarrow> nat \<Rightarrow> string" where
  "slice s a b = take (b - a) (drop a s)"

text \<open>
  \<^verbatim>\<open>strings.Index(s, sep)\<close> for a separator of one byte: the index of the first
  occurrence, \<^term>\<open>None\<close> where Go returns \<^verbatim>\<open>-1\<close>.
\<close>

fun Index :: "string \<Rightarrow> char \<Rightarrow> nat option" where
  "Index [] c = None"
| "Index (x # xs) c = (if x = c then Some 0 else map_option Suc (Index xs c))"

text \<open>
  \<^verbatim>\<open>strings.HasPrefix\<close> and \<^verbatim>\<open>strings.HasSuffix\<close>, as the library writes them:
  \<^verbatim>\<open>len(s) >= len(p) && s[:len(p)] == p\<close> and
  \<^verbatim>\<open>len(s) >= len(p) && s[len(s)-len(p):] == p\<close>.
\<close>

definition HasPrefix :: "string \<Rightarrow> string \<Rightarrow> bool" where
  "HasPrefix s p = (length p \<le> length s \<and> take (length p) s = p)"

definition HasSuffix :: "string \<Rightarrow> string \<Rightarrow> bool" where
  "HasSuffix s p = (length p \<le> length s \<and> drop (length s - length p) s = p)"

section \<open>extractJSONArray\<close>

text \<open>
  The loop \<^verbatim>\<open>for i := start; i < len(input); i++\<close> of \<^verbatim>\<open>extractJSONArray\<close> with
  its three variables \<^verbatim>\<open>depth\<close>, \<^verbatim>\<open>inString\<close> and \<^verbatim>\<open>escaped\<close>. Every
  \<^verbatim>\<open>continue\<close> and every fall out of a \<^verbatim>\<open>switch\<close> is the recursive call at
  \<open>i + 1\<close>; the \<^verbatim>\<open>return\<close> inside the loop ends the recursion; leaving the loop is
  the final \<^verbatim>\<open>return "", false\<close>. \<^verbatim>\<open>depth\<close> is a Go \<^verbatim>\<open>int\<close>: it changes by
  one per byte, so it cannot leave the 64-bit range on a string that fits in memory and
  is modelled as \<^typ>\<open>int\<close>.
\<close>

function extractLoop :: "string \<Rightarrow> nat \<Rightarrow> nat \<Rightarrow> int \<Rightarrow> bool \<Rightarrow> bool \<Rightarrow> string \<times> bool" where
  "extractLoop input start i depth inString escaped =
     (if i < length input then
        (if inString then
           (if escaped then extractLoop input start (i + 1) depth inString False
            else if input ! i = CHR 0x5C then extractLoop input start (i + 1) depth inString True
            else if input ! i = CHR 0x22 then extractLoop input start (i + 1) depth False escaped
            else extractLoop input start (i + 1) depth inString escaped)
         else if input ! i = CHR 0x22 then extractLoop input start (i + 1) depth True escaped
         else if input ! i = CHR ''['' then extractLoop input start (i + 1) (depth + 1) inString escaped
         else if input ! i = CHR '']'' then
           (if depth - 1 = 0 then (slice input start (i + 1), True)
            else extractLoop input start (i + 1) (depth - 1) inString escaped)
         else extractLoop input start (i + 1) depth inString escaped)
      else ('''', False))"
  by pat_completeness auto
termination
  by (relation "measure (\<lambda>(input, start, i, depth, inString, escaped). length input - i)") auto

declare extractLoop.simps [simp del]

definition extractJSONArray :: "string \<Rightarrow> string \<times> bool" where
  "extractJSONArray input =
     (case Index input (CHR ''['') of
        None \<Rightarrow> ('''', False)
      | Some start \<Rightarrow> extractLoop input start start 0 False False)"

subsection \<open>The scan as the specification words it\<close>

text \<open>
  The specification describes a depth counter, incremented on each unquoted \<open>[\<close> and
  decremented on each unquoted \<open>]\<close>, an in-string flag and an escape-pending flag.
  \<open>track\<close> is one byte of that description and \<open>tracked t\<close> the three values after
  the whole of \<open>t\<close>, started from depth zero outside any string.
\<close>

fun track :: "int \<times> bool \<times> bool \<Rightarrow> char \<Rightarrow> int \<times> bool \<times> bool" where
  "track (depth, inString, escaped) ch =
     (if inString then
        (if escaped then (depth, True, False)
         else if ch = CHR 0x5C then (depth, True, True)
         else if ch = CHR 0x22 then (depth, False, False)
         else (depth, True, False))
      else if ch = CHR 0x22 then (depth, True, escaped)
      else if ch = CHR ''['' then (depth + 1, False, escaped)
      else if ch = CHR '']'' then (depth - 1, False, escaped)
      else (depth, False, escaped))"

definition tracked :: "string \<Rightarrow> int \<times> bool \<times> bool" where
  "tracked t = foldl track (0, False, False) t"

definition depth_after :: "string \<Rightarrow> int" where
  "depth_after t = fst (tracked t)"

text \<open>
  \<open>closes_first c\<close>: \<open>c\<close> starts with \<open>[\<close>, the depth is zero after the whole of \<open>c\<close>
  and after no shorter non-empty prefix of it. \<open>never_closes t\<close>: \<open>t\<close> starts with
  \<open>[\<close> and the depth is zero after no non-empty prefix of it.
\<close>

definition closes_first :: "string \<Rightarrow> bool" where
  "closes_first c =
     (c \<noteq> [] \<and> hd c = CHR ''['' \<and> depth_after c = 0 \<and>
      (\<forall>n \<in> {1..<length c}. depth_after (take n c) \<noteq> 0))"

definition never_closes :: "string \<Rightarrow> bool" where
  "never_closes t =
     (t \<noteq> [] \<and> hd t = CHR ''['' \<and> (\<forall>n \<in> {1..length t}. depth_after (take n t) \<noteq> 0))"

section \<open>Runes and UTF-8\<close>

text \<open>
  A \<^verbatim>\<open>rune\<close> is a code point. The runes met here come out of the decoder or of
  the case tables, so they are never negative and \<^typ>\<open>nat\<close> holds them.
  \<open>byte c\<close> is the value of a byte, \<^verbatim>\<open>RuneError\<close> is U+FFFD.
\<close>

type_synonym rune = nat

definition byte :: "char \<Rightarrow> nat" where
  "byte c = of_char c"

definition RuneError :: rune where
  "RuneError = 0xFFFD"

text \<open>A continuation byte: \<^verbatim>\<open>locb <= b && b <= hicb\<close>, that is \<open>0x80..0xBF\<close>.\<close>

definition continuation :: "char \<Rightarrow> bool" where
  "continuation c = (0x80 \<le> byte c \<and> byte c \<le> 0xBF)"

text \<open>
  \<^verbatim>\<open>runtime.decoderune\<close>, which a \<^verbatim>\<open>range\<close> over a string calls on a byte that
  is not ASCII: the rune at the head of a non-empty \<open>s\<close> and the number of bytes it
  takes; a malformed, overlong, surrogate or out-of-range sequence gives
  \<^verbatim>\<open>RuneError\<close> and one byte. The masks and shifts of the Go text are written as
  \<open>mod\<close> and products (the bit fields do not overlap).
\<close>

definition decoderune :: "string \<Rightarrow> rune \<times> nat" where
  "decoderune s =
     (let s0 = byte (s ! 0) in
      if 0xC0 \<le> s0 \<and> s0 < 0xE0 then
        (if 1 < length s \<and> continuation (s ! 1) then
           (let r = (s0 mod 32) * 64 + byte (s ! 1) mod 64
            in if 0x7F < r then (r, 2) else (RuneError, 1))
         else (RuneError, 1))
      else if 0xE0 \<le> s0 \<and> s0 < 0xF0 then
        (if 2 < length s \<and> continuation (s ! 1) \<and> continuation (s ! 2) then
           (let r = (s0 mod 16) * 4096 + (byte (s ! 1) mod 64) * 64 + byte (s ! 2) mod 64
            in if 0x7FF < r \<and> \<not> (0xD800 \<le> r \<and> r \<le> 0xDFFF) then (r, 3) else (RuneError, 1))
         else (RuneError, 1))
      else if 0xF0 \<le> s0 \<and> s0 < 0xF8 then
        (if 3 < length s \<and> continuation (s ! 1) \<and> continuation (s ! 2) \<and> continuation (s ! 3) then
           (let r = (s0 mod 8) * 262144 + (byte (s ! 1) mod 64) * 4096 +
                    (byte (s ! 2) mod 64) * 64 + byte (s ! 3) mod 64
            in if 0xFFFF < r \<and> r \<le> 0x10FFFF then (r, 4) else (RuneError, 1))
         else (RuneError, 1))
      else (RuneError, 1))"

text \<open>
  \<^verbatim>\<open>utf8.DecodeRuneInString\<close> on a non-empty string: an ASCII byte is its own rune,
  anything else is decoded as above (the library's table-driven decoder and the
  runtime's accept the same sequences).
\<close>

definition DecodeRuneInString :: "string \<Rightarrow> rune \<times> nat" where
  "DecodeRuneInString s = (if byte (s ! 0) < 0x80 then (byte (s ! 0), 1) else decoderune s)"

text \<open>\<^verbatim>\<open>for _, r := range s\<close>: the runes of \<open>s\<close> in order.\<close>

function rangeRunes :: "string \<Rightarrow> rune list" where
  "rangeRunes s =
     (if s = [] then []
      else (case DecodeRuneInString s of (r, n) \<Rightarrow> r # rangeRunes (drop n s)))"
  by pat_completeness auto
termination
  by (relation "measure length")
    (auto simp: DecodeRuneInString_def decoderune_def Let_def split: if_splits)

declare rangeRunes.simps [simp del]

text \<open>
  \<^verbatim>\<open>runtime.encoderune\<close>, the bytes of one rune in the conversion
  \<^verbatim>\<open>string([]rune)\<close>: a surrogate or a value above U+10FFFF is written as U+FFFD.
\<close>

definition encoderune :: "rune \<Rightarrow> string" where
  "encoderune r =
     (if r \<le> 0x7F then [char_of r]
      else if r \<le> 0x7FF then [char_of (0xC0 + r div 64), char_of (0x80 + r mod 64)]
      else if 0x10FFFF < r \<or> (0xD800 \<le> r \<and> r \<le> 0xDFFF) then
        [char_of (0xEF :: nat), char_of (0xBF :: nat), char_of (0xBD :: nat)]
      else if r \<le> 0xFFFF then
        [char_of (0xE0 + r div 4096), char_of (0x80 + (r div 64) mod 64), char_of (0x80 + r mod 64)]
      else
        [char_of (0xF0 + r div 262144), char_of (0x80 + (r div 4096) mod 64),
         char_of (0x80 + (r div 64) mod 64), char_of (0x80 + r mod 64)])"

definition runesToString :: "rune list \<Rightarrow> string" where
  "runesToString rs = concat (map encoderune rs)"

subsection \<open>Character classes\<close>

text \<open>
  \<^verbatim>\<open>unicode.IsLetter\<close>, \<^verbatim>\<open>unicode.IsDigit\<close> and \<^verbatim>\<open>unicode.ToLower\<close> are
  functions of Go's library. On ASCII they are the ranges written below. Beyond ASCII
  they read the Unicode tables of the library, which are data outside the program:
  \<open>tables\<close> holds what the three functions return there, and every definition that
  classifies runes takes it as a parameter.
\<close>

record tables =
  LetterTable :: "rune \<Rightarrow> bool"
  DigitTable :: "rune \<Rightarrow> bool"
  LowerTable :: "rune \<Rightarrow> rune"

definition IsLetter :: "tables \<Rightarrow> rune \<Rightarrow> bool" where
  "IsLetter u r =
     (if r < 0x80 then (0x41 \<le> r \<and> r \<le> 0x5A) \<or> (0x61 \<le> r \<and> r \<le> 0x7A) else LetterTable u r)"

definition IsDigit :: "tables \<Rightarrow> rune \<Rightarrow> bool" where
  "IsDigit u r = (if r < 0x80 then 0x30 \<le> r \<and> r \<le> 0x39 else DigitTable u r)"

definition ToLower :: "tables \<Rightarrow> rune \<Rightarrow> rune" where
  "ToLower u r =
     (if r < 0x80 then (if 0x41 \<le> r \<and> r \<le> 0x5A then r + 0x20 else r) else LowerTable u r)"

text \<open>
  \<^verbatim>\<open>unicode.IsSpace\<close>: the Latin-1 cases of its \<^verbatim>\<open>switch\<close> and the remaining
  code points of the White\_Space property.
\<close>

definition IsSpace :: "rune \<Rightarrow> bool" where
  "IsSpace r =
     (if r \<le> 0xFF then r = 0x09 \<or> r = 0x0A \<or> r = 0x0B \<or> r = 0x0C \<or> r = 0x0D \<or> r = 0x20 \<or>
                        r = 0x85 \<or> r = 0xA0
      else r = 0x1680 \<or> (0x2000 \<le> r \<and> r \<le> 0x200A) \<or> r = 0x2028 \<or> r = 0x2029 \<or>
           r = 0x202F \<or> r = 0x205F \<or> r = 0x3000)"

section \<open>looksLikeFalseLiteral\<close>

text \<open>
  The \<^verbatim>\<open>range\<close> loop of \<^verbatim>\<open>looksLikeFalseLiteral\<close> over the runes of the input,
  with the slice \<^verbatim>\<open>lettersOnly\<close> it appends to. The three branches are the source's:
  a letter is appended in lower case, a digit is skipped by \<^verbatim>\<open>continue\<close>, and any
  other rune reaches the end of the loop body with nothing done.
\<close>

fun lettersLoop :: "tables \<Rightarrow> rune list \<Rightarrow> rune list \<Rightarrow> rune list" where
  "lettersLoop u [] lettersOnly = lettersOnly"
| "lettersLoop u (r # rs) lettersOnly =
     (if IsLetter u r then lettersLoop u rs (lettersOnly @ [ToLower u r])
      else if IsDigit u r then lettersLoop u rs lettersOnly
      else lettersLoop u rs lettersOnly)"

text \<open>\<^verbatim>\<open>normalized := string(lettersOnly)\<close>, a string of bytes again.\<close>

definition normalized :: "tables \<Rightarrow> string \<Rightarrow> string" where
  "normalized u input = runesToString (lettersLoop u (rangeRunes input) [])"

definition looksLikeFalseLiteral :: "tables \<Rightarrow> string \<Rightarrow> bool" where
  "looksLikeFalseLiteral u input =
     (if normalized u input = ''false'' then True
      else if length (normalized u input) = 4 \<and> HasPrefix (normalized u input) ''f'' \<and>
              HasSuffix (normalized u input) ''lse'' then True
      else False)"

subsection \<open>The filter as the specification words it\<close>

text \<open>
  The specification filters the input to letters only and folds them to lower case:
  \<open>letters_lowercased\<close> is that sequence of letters (of runes, not of bytes), and
  \<open>ascii t\<close> the runes of a text written in ASCII.
\<close>

definition letters_lowercased :: "tables \<Rightarrow> string \<Rightarrow> rune list" where
  "letters_lowercased u input = map (ToLower u) (filter (IsLetter u) (rangeRunes input))"

definition ascii :: "string \<Rightarrow> rune list" where
  "ascii t = map byte t"

section \<open>strings.TrimSpace\<close>

text \<open>
  \<^verbatim>\<open>utf8.DecodeLastRuneInString\<close> on a non-empty string: the last rune and its
  width. From the last byte the library looks back over at most three more bytes for
  one that can start a rune (\<^verbatim>\<open>RuneStart\<close>: not a continuation byte), decodes from
  there, and accepts the rune only if it ends exactly at the end of the string.
  \<open>lastRuneStart\<close> is the index that search stops at.
\<close>

definition RuneStart :: "char \<Rightarrow> bool" where
  "RuneStart b = (\<not> continuation b)"

definition lastRuneStart :: "string \<Rightarrow> nat" where
  "lastRuneStart s =
     (let n = length s; lim = n - 4 in
      if 2 \<le> n \<and> RuneStart (s ! (n - 2)) then n - 2
      else if 3 \<le> n \<and> RuneStart (s ! (n - 3)) then n - 3
      else if 4 \<le> n \<and> RuneStart (s ! (n - 4)) then n - 4
      else lim - 1)"

definition DecodeLastRuneInString :: "string \<Rightarrow> rune \<times> nat" where
  "DecodeLastRuneInString s =
     (if byte (s ! (length s - 1)) < 0x80 then (byte (s ! (length s - 1)), 1)
      else (case DecodeRuneInString (drop (lastRuneStart s) s) of
              (r, width) \<Rightarrow>
                if lastRuneStart s + width \<noteq> length s then (RuneError, 1) else (r, width)))"

text \<open>
  \<^verbatim>\<open>strings.TrimLeftFunc(s, unicode.IsSpace)\<close> and
  \<^verbatim>\<open>strings.TrimRightFunc(s, unicode.IsSpace)\<close>: runes are taken off one end while
  they are white space. \<^verbatim>\<open>strings.TrimSpace\<close> is the two in turn; its loops over
  ASCII bytes at both ends are a fast path to the same slice.
\<close>

function TrimLeftSpace :: "string \<Rightarrow> string" where
  "TrimLeftSpace s =
     (if s = [] then []
      else (case DecodeRuneInString s of
              (r, width) \<Rightarrow> if IsSpace r then TrimLeftSpace (drop width s) else s))"
  by pat_completeness auto
termination
  by (relation "measure length")
    (auto simp: DecodeRuneInString_def decoderune_def Let_def split: if_splits)

declare TrimLeftSpace.simps [simp del]

function TrimRightSpace :: "string \<Rightarrow> string" where
  "TrimRightSpace s =
     (if s = [] then []
      else (case DecodeLastRuneInString s of
              (r, width) \<Rightarrow> if IsSpace r then TrimRightSpace (take (length s - width) s) else s))"
  by pat_completeness auto
termination
proof (relation "measure length", goal_cases)
  case 1
  show ?case by simp
next
  case (2 s r width)
  have "0 < snd (DecodeRuneInString (drop (lastRuneStart s) s))"
    by (auto simp: DecodeRuneInString_def decoderune_def Let_def)
  then have "0 < snd (DecodeLastRuneInString s)"
    by (auto simp: DecodeLastRuneInString_def split: prod.splits)
  with 2 have "0 < width" by (metis snd_conv)
  with 2 show ?case by (cases s) auto
qed

declare TrimRightSpace.simps [simp del]

definition TrimSpace :: "string \<Rightarrow> string" where
  "TrimSpace s = TrimRightSpace (TrimLeftSpace s)"

section \<open>encoding/json\<close>

text \<open>
  \<^verbatim>\<open>json.Unmarshal\<close> first checks the whole input against the JSON grammar
  (\<^verbatim>\<open>checkValid\<close>; a failure is a \<^verbatim>\<open>*json.SyntaxError\<close> and the target is left
  untouched) and then stores the value into the target (a failure there is a
  \<^verbatim>\<open>*json.UnmarshalTypeError\<close>). The model parses the input to a value of type
  \<open>json\<close> by the grammar of the library's scanner and converts that value.
\<close>

datatype json =
    JNull
  | JBool bool
  | JNumber string
  | JString string
  | JArray "json list"
  | JObject "(string \<times> json) list"

datatype json_error = SyntaxError | UnmarshalTypeError

text \<open>The scanner's \<^verbatim>\<open>isSpace\<close>: space, tab, carriage return, line feed.\<close>

definition isSpace :: "char \<Rightarrow> bool" where
  "isSpace c = (c = CHR '' '' \<or> c = CHR 0x09 \<or> c = CHR 0x0D \<or> c = CHR 0x0A)"

definition skipSpace :: "string \<Rightarrow> string" where
  "skipSpace s = dropWhile isSpace s"

definition isDigit :: "char \<Rightarrow> bool" where
  "isDigit c = (0x30 \<le> byte c \<and> byte c \<le> 0x39)"

subsection \<open>String literals\<close>

definition hexval :: "char \<Rightarrow> nat option" where
  "hexval c =
     (if 0x30 \<le> byte c \<and> byte c \<le> 0x39 then Some (byte c - 0x30)
      else if 0x61 \<le> byte c \<and> byte c \<le> 0x66 then Some (byte c - 0x61 + 10)
      else if 0x41 \<le> byte c \<and> byte c \<le> 0x46 then Some (byte c - 0x41 + 10)
      else None)"

text \<open>
  \<^verbatim>\<open>getu4\<close>: the number written by the four hexadecimal digits of a
  \<^verbatim>\<open>\uXXXX\<close> at the head of \<open>s\<close>, \<^term>\<open>None\<close> where the library returns \<open>-1\<close>.
\<close>

definition getu4 :: "string \<Rightarrow> rune option" where
  "getu4 s =
     (if 6 \<le> length s \<and> s ! 0 = CHR 0x5C \<and> s ! 1 = CHR ''u'' then
        (case (hexval (s ! 2), hexval (s ! 3), hexval (s ! 4), hexval (s ! 5)) of
           (Some a, Some b, Some c, Some d) \<Rightarrow> Some (a * 4096 + b * 256 + c * 16 + d)
         | _ \<Rightarrow> None)
      else None)"

text \<open>
  \<^verbatim>\<open>utf16.IsSurrogate\<close>, and \<^verbatim>\<open>utf16.DecodeRune\<close> on a surrogate and what
  \<^verbatim>\<open>getu4\<close> found after it: the code point of a valid pair, \<^term>\<open>None\<close> where the
  library returns the replacement character.
\<close>

definition IsSurrogate :: "rune \<Rightarrow> bool" where
  "IsSurrogate r = (0xD800 \<le> r \<and> r < 0xE000)"

definition surrogatePair :: "rune \<Rightarrow> rune option \<Rightarrow> rune option" where
  "surrogatePair r1 r2 =
     (case r2 of
        None \<Rightarrow> None
      | Some r \<Rightarrow>
          if 0xD800 \<le> r1 \<and> r1 < 0xDC00 \<and> 0xDC00 \<le> r \<and> r < 0xE000
          then Some ((r1 - 0xD800) * 1024 + (r - 0xDC00) + 0x10000)
          else None)"

text \<open>The byte a two-character escape stands for; \<^term>\<open>None\<close> for any other character.\<close>

definition unescape :: "char \<Rightarrow> char option" where
  "unescape c =
     (if c = CHR 0x22 \<or> c = CHR 0x5C \<or> c = CHR ''/'' then Some c
      else if c = CHR ''b'' then Some (CHR 0x08)
      else if c = CHR ''f'' then Some (CHR 0x0C)
      else if c = CHR ''n'' then Some (CHR 0x0A)
      else if c = CHR ''r'' then Some (CHR 0x0D)
      else if c = CHR ''t'' then Some (CHR 0x09)
      else None)"

definition emit :: "string \<Rightarrow> (string \<times> string) option \<Rightarrow> (string \<times> string) option" where
  "emit bs res = map_option (\<lambda>(decoded, rest). (bs @ decoded, rest)) res"

text \<open>
  A string literal after its opening quote: the decoded content and the text after the
  closing quote, \<^term>\<open>None\<close> where the scanner rejects the literal (no closing quote,
  a control character, a bad escape). The content is decoded as \<^verbatim>\<open>unquote\<close> does:
  escapes are replaced, a \<^verbatim>\<open>\u\<close> pair of surrogates becomes one rune, a lone
  surrogate and every invalid UTF-8 byte becomes U+FFFD.
\<close>

function stringBody :: "string \<Rightarrow> (string \<times> string) option" where
  "stringBody s =
     (if s = [] then None
      else if hd s = CHR 0x22 then Some ('''', tl s)
      else if hd s = CHR 0x5C then
        (if length s < 2 then None
         else if s ! 1 = CHR ''u'' then
           (case getu4 s of
              None \<Rightarrow> None
            | Some rr \<Rightarrow>
                if IsSurrogate rr then
                  (case surrogatePair rr (getu4 (drop 6 s)) of
                     Some dec \<Rightarrow> emit (encoderune dec) (stringBody (drop 12 s))
                   | None \<Rightarrow> emit (encoderune RuneError) (stringBody (drop 6 s)))
                else emit (encoderune rr) (stringBody (drop 6 s)))
         else
           (case unescape (s ! 1) of
              None \<Rightarrow> None
            | Some b \<Rightarrow> emit [b] (stringBody (drop 2 s))))
      else if byte (hd s) < 0x20 then None
      else if byte (hd s) < 0x80 then emit [hd s] (stringBody (tl s))
      else (case DecodeRuneInString s of
              (r, n) \<Rightarrow> emit (encoderune r) (stringBody (drop n s))))"
  by pat_completeness auto
termination
  by (relation "measure length")
    (auto simp: DecodeRuneInString_def decoderune_def Let_def split: if_splits)

declare stringBody.simps [simp del]

subsection \<open>Number literals\<close>

text \<open>
  The scanner's number states: an optional minus sign, \<open>0\<close> or a digit \<open>1..9\<close>
  followed by digits, an optional fraction (a dot and at least one digit), an optional
  exponent (\<open>e\<close> or \<open>E\<close>, an optional sign, at least one digit). Each part returns the
  text it read and the rest.
\<close>

definition intPart :: "string \<Rightarrow> (string \<times> string) option" where
  "intPart s =
     (if s = [] \<or> \<not> isDigit (hd s) then None
      else if hd s = CHR ''0'' then Some (''0'', tl s)
      else Some (takeWhile isDigit s, dropWhile isDigit s))"

definition digits1 :: "string \<Rightarrow> (string \<times> string) option" where
  "digits1 s =
     (if s = [] \<or> \<not> isDigit (hd s) then None
      else Some (takeWhile isDigit s, dropWhile isDigit s))"

definition fracPart :: "string \<Rightarrow> (string \<times> string) option" where
  "fracPart s =
     (if s \<noteq> [] \<and> hd s = CHR ''.'' then emit ''.'' (digits1 (tl s)) else Some ('''', s))"

definition expPart :: "string \<Rightarrow> (string \<times> string) option" where
  "expPart s =
     (if s \<noteq> [] \<and> (hd s = CHR ''e'' \<or> hd s = CHR ''E'') then
        (if tl s \<noteq> [] \<and> (hd (tl s) = CHR ''+'' \<or> hd (tl s) = CHR ''-'')
         then emit [hd s, hd (tl s)] (digits1 (tl (tl s)))
         else emit [hd s] (digits1 (tl s)))
      else Some ('''', s))"

definition numberLiteral :: "string \<Rightarrow> (string \<times> string) option" where
  "numberLiteral s =
     (let sign = (if s \<noteq> [] \<and> hd s = CHR ''-'' then ''-'' else '''');
          s0 = drop (length sign) s
      in case intPart s0 of
           None \<Rightarrow> None
         | Some (i, s1) \<Rightarrow>
             (case fracPart s1 of
                None \<Rightarrow> None
              | Some (f, s2) \<Rightarrow>
                  (case expPart s2 of
                     None \<Rightarrow> None
                   | Some (e, s3) \<Rightarrow> Some (sign @ i @ f @ e, s3))))"

subsection \<open>Values\<close>

text \<open>
  The scanner refuses to nest arrays and objects deeper than
  \<^verbatim>\<open>maxNestingDepth\<close>. A value is parsed after optional white space; the result is
  the value and the text after it. The first argument bounds the number of nested calls,
  so that the recursion is structural; \<open>parseJSON\<close> gives it more than any input uses
  (every second call at least reads a byte, see \<open>parseJSON_fuel\<close> below).
\<close>

definition maxNestingDepth :: nat where
  "maxNestingDepth = 10000"

fun parseValue :: "nat \<Rightarrow> nat \<Rightarrow> string \<Rightarrow> (json \<times> string) option"
  and parseElements :: "nat \<Rightarrow> nat \<Rightarrow> string \<Rightarrow> (json list \<times> string) option"
  and parseMembers :: "nat \<Rightarrow> nat \<Rightarrow> string \<Rightarrow> ((string \<times> json) list \<times> string) option"
where
  "parseValue 0 depth s = None"
| "parseValue (Suc fuel) depth s =
     (case skipSpace s of
        [] \<Rightarrow> None
      | c # cs \<Rightarrow>
          if c = CHR ''{'' then
            (if maxNestingDepth < depth + 1 then None
             else (case skipSpace cs of
                     [] \<Rightarrow> None
                   | d # ds \<Rightarrow>
                       if d = CHR ''}'' then Some (JObject [], ds)
                       else map_option (\<lambda>(ms, r). (JObject ms, r))
                              (parseMembers fuel (depth + 1) cs)))
          else if c = CHR ''['' then
            (if maxNestingDepth < depth + 1 then None
             else (case skipSpace cs of
                     [] \<Rightarrow> None
                   | d # ds \<Rightarrow>
                       if d = CHR '']'' then Some (JArray [], ds)
                       else map_option (\<lambda>(vs, r). (JArray vs, r))
                              (parseElements fuel (depth + 1) cs)))
          else if c = CHR 0x22 then map_option (\<lambda>(t, r). (JString t, r)) (stringBody cs)
          else if c = CHR ''-'' \<or> isDigit c then
            map_option (\<lambda>(t, r). (JNumber t, r)) (numberLiteral (c # cs))
          else if c = CHR ''t'' then
            (if take 3 cs = ''rue'' then Some (JBool True, drop 3 cs) else None)
          else if c = CHR ''f'' then
            (if take 4 cs = ''alse'' then Some (JBool False, drop 4 cs) else None)
          else if c = CHR ''n'' then
            (if take 3 cs = ''ull'' then Some (JNull, drop 3 cs) else None)
          else None)"
| "parseElements 0 depth s = None"
| "parseElements (Suc fuel) depth s =
     (case parseValue fuel depth s of
        None \<Rightarrow> None
      | Some (v, r) \<Rightarrow>
          (case skipSpace r of
             [] \<Rightarrow> None
           | c # cs \<Rightarrow>
               if c = CHR '','' then
                 map_option (\<lambda>(vs, r'). (v # vs, r')) (parseElements fuel depth cs)
               else if c = CHR '']'' then Some ([v], cs)
               else None))"
| "parseMembers 0 depth s = None"
| "parseMembers (Suc fuel) depth s =
     (case skipSpace s of
        [] \<Rightarrow> None
      | q # qs \<Rightarrow>
          if q \<noteq> CHR 0x22 then None
          else (case stringBody qs of
                  None \<Rightarrow> None
                | Some (k, r) \<Rightarrow>
                    (case skipSpace r of
                       [] \<Rightarrow> None
                     | c # cs \<Rightarrow>
                         if c \<noteq> CHR '':'' then None
                         else (case parseValue fuel depth cs of
                                 None \<Rightarrow> None
                               | Some (v, r') \<Rightarrow>
                                   (case skipSpace r' of
                                      [] \<Rightarrow> None
                                    | e # es \<Rightarrow>
                                        if e = CHR '','' then
                                          map_option (\<lambda>(ms, r''). ((k, v) # ms, r''))
                                            (parseMembers fuel depth es)
                                        else if e = CHR ''}'' then Some ([(k, v)], es)
                                        else None)))))"

definition parseJSON :: "string \<Rightarrow> json option" where
  "parseJSON data =
     (case parseValue (2 * length data + 2) 0 data of
        None \<Rightarrow> None
      | Some (v, rest) \<Rightarrow> if skipSpace rest = [] then Some v else None)"

subsection \<open>Unmarshal\<close>

text \<open>
  \<^verbatim>\<open>json.Unmarshal(data, &rawString)\<close> with \<^verbatim>\<open>var rawString string\<close>: a string
  literal is stored decoded, \<^verbatim>\<open>null\<close> leaves the variable as it is (empty), any
  other value is a type error.
\<close>

definition Unmarshal_string :: "string \<Rightarrow> json_error + string" where
  "Unmarshal_string data =
     (case parseJSON data of
        None \<Rightarrow> Inl SyntaxError
      | Some (JString t) \<Rightarrow> Inr t
      | Some JNull \<Rightarrow> Inr ''''
      | Some _ \<Rightarrow> Inl UnmarshalTypeError)"

text \<open>
  A Go slice is \<^verbatim>\<open>nil\<close> or holds elements; both have a length, zero for
  \<^verbatim>\<open>nil\<close> and for the empty slice \<^verbatim>\<open>[]T{}\<close>.
\<close>

datatype 'a slice = NilSlice | Slice "'a list"

fun elements :: "'a slice \<Rightarrow> 'a list" where
  "elements NilSlice = []"
| "elements (Slice xs) = xs"

text \<open>
  \<^verbatim>\<open>json.Unmarshal(data, &fileList)\<close> with a \<^verbatim>\<open>nil\<close> slice \<^verbatim>\<open>fileList\<close> of a
  struct type: an array is stored element by element (an empty array as the empty,
  non-nil slice), \<^verbatim>\<open>null\<close> leaves the slice \<^verbatim>\<open>nil\<close>, any other value is a type
  error. The struct types \<^verbatim>\<open>FileDetail\<close> and \<^verbatim>\<open>FileListEntry\<close> are declared
  in another file of the repository, so what one array element decodes to is the parameter
  \<open>elem\<close>: the struct for a value the type accepts, \<^term>\<open>None\<close> for a type error.

  In \<^verbatim>\<open>UnmarshalFileList\<close> the second call decodes into the variable the first call
  failed on. That variable is still \<^verbatim>\<open>nil\<close> whenever the second call has another
  input than the first: a syntax error and a type error at the top level both leave
  the target untouched, and after a type error inside an array the candidate is the
  whole text again. So each call is a function of its input alone.
\<close>

definition Unmarshal_slice :: "(json \<Rightarrow> 'a option) \<Rightarrow> string \<Rightarrow> json_error + 'a slice" where
  "Unmarshal_slice elem data =
     (case parseJSON data of
        None \<Rightarrow> Inl SyntaxError
      | Some (JArray vs) \<Rightarrow>
          (case those (map elem vs) of
             None \<Rightarrow> Inl UnmarshalTypeError
           | Some xs \<Rightarrow> Inr (Slice xs))
      | Some JNull \<Rightarrow> Inr NilSlice
      | Some _ \<Rightarrow> Inl UnmarshalTypeError)"

section \<open>UnmarshalFileList\<close>

text \<open>
  Modelled from the spec: the struct \<^verbatim>\<open>ServerResponse\<close> is declared in another file
  of the repository. \<^verbatim>\<open>UnmarshalFileList\<close> reads two of its fields through pointers,
  \<^verbatim>\<open>FileListMode\<close> (a string) and \<^verbatim>\<open>FileList\<close> (the raw bytes of the field);
  section 4.3 of the specification gives the decoder an optional mode tag and an optional
  raw payload. \<^term>\<open>None\<close> is the \<^verbatim>\<open>nil\<close> pointer.
\<close>

record ServerResponse =
  FileListMode :: "string option"
  FileList :: "string option"

text \<open>
  Every error of the function is made by \<^verbatim>\<open>fmt.Errorf\<close>: \<open>Errorf text cause\<close> is
  the error whose message is \<open>text\<close>, followed by the message of \<open>cause\<close> where the
  format ends in \<^verbatim>\<open>%v\<close> of a decoding error. The result is an
  \<^verbatim>\<open>interface{}\<close> that holds a slice of one of the two struct types.
\<close>

datatype error = Errorf string "json_error option"

datatype ('d, 'e) file_list = FileDetails "'d slice" | FileListEntries "'e slice"

text \<open>
  The function, branch by branch. \<open>u\<close> are the Unicode tables, \<open>detail\<close> and
  \<open>entry\<close> decode one array element to a \<^verbatim>\<open>FileDetail\<close> and to a
  \<^verbatim>\<open>FileListEntry\<close>. \<open>fallback\<close> is the code after the extraction attempt, reached
  when no candidate is found and when the candidate does not parse.
\<close>

definition UnmarshalFileList ::
  "tables \<Rightarrow> (json \<Rightarrow> 'd option) \<Rightarrow> (json \<Rightarrow> 'e option) \<Rightarrow> ServerResponse \<Rightarrow>
   error + ('d, 'e) file_list" where
  "UnmarshalFileList u detail entry sr =
     (case (FileListMode sr, FileList sr) of
        (Some mode, Some raw) \<Rightarrow>
          if mode = ''string'' then
            (case Unmarshal_string raw of
               Inl err \<Rightarrow> Inl (Errorf ''error parsing FileList into string: '' (Some err))
             | Inr rawString \<Rightarrow>
                 (let trimmed = TrimSpace rawString in
                  case Unmarshal_slice detail trimmed of
                    Inr fileList \<Rightarrow> Inr (FileDetails fileList)
                  | Inl err \<Rightarrow>
                      (let fallback =
                         (if looksLikeFalseLiteral u trimmed then Inr (FileDetails (Slice []))
                          else Inl (Errorf ''error parsing FileList into []FileDetail: '' (Some err)))
                       in case extractJSONArray trimmed of
                            (candidate, ok) \<Rightarrow>
                              if ok then
                                (case Unmarshal_slice detail candidate of
                                   Inr fileList \<Rightarrow> Inr (FileDetails fileList)
                                 | Inl err2 \<Rightarrow> fallback)
                              else fallback)))
          else if mode = ''json'' then
            (case Unmarshal_slice entry raw of
               Inl err \<Rightarrow> Inl (Errorf ''error parsing FileList into []FileListEntry: '' (Some err))
             | Inr fileList \<Rightarrow> Inr (FileListEntries fileList))
          else Inl (Errorf (''unknown FileListMode: '' @ mode) None)
      | _ \<Rightarrow> Inl (Errorf ''FileListMode or FileList are empty, cannot proceed with unmarshaling'' None))"

text \<open>The length of the slice a result holds.\<close>

fun file_count :: "('d, 'e) file_list \<Rightarrow> nat" where
  "file_count (FileDetails s) = length (elements s)"
| "file_count (FileListEntries s) = length (elements s)"

subsection \<open>Concrete parameters\<close>

text \<open>
  For texts written in ASCII the Unicode tables are never read; \<open>no_tables\<close> is a
  value for them that classifies nothing.

  Modelled from the spec: \<^verbatim>\<open>FileDetail\<close> and \<^verbatim>\<open>FileListEntry\<close> are struct types
  declared in another file of the repository, and the specification leaves their fields
  opaque. Where a concrete element type is needed, \<open>structElem\<close> keeps an element as the
  members of the JSON object it is decoded from: \<^verbatim>\<open>encoding/json\<close> stores an object
  into a struct, leaves the struct at its zero value on \<^verbatim>\<open>null\<close>, and reports a type
  error for every other value.
\<close>

definition no_tables :: tables where
  "no_tables = \<lparr>LetterTable = (\<lambda>r. False), DigitTable = (\<lambda>r. False), LowerTable = (\<lambda>r. r)\<rparr>"

definition structElem :: "json \<Rightarrow> (string \<times> json) list option" where
  "structElem v = (case v of JObject ms \<Rightarrow> Some ms | JNull \<Rightarrow> Some [] | _ \<Rightarrow> None)"

section \<open>Properties of extractJSONArray\<close>

lemma Index_None_iff: "Index s c = None \<longleftrightarrow> c \<notin> set s"
  by (induction s) auto

lemma Index_append_first: "c \<notin> set pre \<Longrightarrow> Index (pre @ c # rest) c = Some (length pre)"
  by (induction pre) auto

lemma slice_Suc: "start \<le> i \<Longrightarrow> i < length s \<Longrightarrow> slice s start (Suc i) = slice s start i @ [s ! i]"
  by (simp add: slice_def Suc_diff_le take_Suc_conv_app_nth)

lemma tracked_slice_Suc:
  "start \<le> i \<Longrightarrow> i < length s \<Longrightarrow>
   tracked (slice s start (Suc i)) = track (tracked (slice s start i)) (s ! i)"
  by (simp add: slice_Suc tracked_def)

text \<open>
  One turn of the loop with a positive depth is one step of \<open>track\<close>, and the loop
  returns in that turn exactly when the new depth is zero.
\<close>

lemma extractLoop_step:
  assumes "i < length input" "1 \<le> d" "track (d, s, e) (input ! i) = (d', s', e')"
  shows "0 \<le> d' \<and> extractLoop input start i d s e =
           (if d' = 0 then (slice input start (i + 1), True)
            else extractLoop input start (i + 1) d' s' e')"
  using assms by (subst extractLoop.simps) (auto split: if_splits)

lemma extractLoop_found:
  assumes "start \<le> i" "i < k" "k \<le> length input"
    and "tracked (slice input start i) = (d, s, e)" "1 \<le> d"
    and "depth_after (slice input start k) = 0"
    and "\<forall>j. i < j \<and> j < k \<longrightarrow> depth_after (slice input start j) \<noteq> 0"
  shows "extractLoop input start i d s e = (slice input start k, True)"
  using assms
proof (induction "k - i" arbitrary: i d s e)
  case 0
  then show ?case by simp
next
  case (Suc n)
  obtain d' s' e' where tr: "track (d, s, e) (input ! i) = (d', s', e')"
    by (cases "track (d, s, e) (input ! i)") auto
  from Suc.prems have il: "i < length input" by simp
  have tk: "tracked (slice input start (Suc i)) = (d', s', e')"
    using tracked_slice_Suc [OF Suc.prems(1) il] Suc.prems(4) tr by simp
  note st = extractLoop_step [OF il Suc.prems(5) tr, of start]
  show ?case
  proof (cases "Suc i = k")
    case True
    with Suc.prems(6) tk have "d' = 0" by (simp add: depth_after_def)
    with st True show ?thesis by simp
  next
    case False
    with Suc.prems have lt: "Suc i < k" by simp
    with Suc.prems(7) tk have "d' \<noteq> 0" by (auto simp: depth_after_def)
    with st have d1: "1 \<le> d'"
      and eq: "extractLoop input start i d s e = extractLoop input start (Suc i) d' s' e'"
      by auto
    have "extractLoop input start (Suc i) d' s' e' = (slice input start k, True)"
    proof (rule Suc.hyps(1))
      show "n = k - Suc i" using Suc.hyps(2) by simp
      show "start \<le> Suc i" using Suc.prems(1) by simp
      show "Suc i < k" by (rule lt)
      show "k \<le> length input" by (rule Suc.prems(3))
      show "tracked (slice input start (Suc i)) = (d', s', e')" by (rule tk)
      show "1 \<le> d'" by (rule d1)
      show "depth_after (slice input start k) = 0" by (rule Suc.prems(6))
      show "\<forall>j. Suc i < j \<and> j < k \<longrightarrow> depth_after (slice input start j) \<noteq> 0"
        using Suc.prems(7) by auto
    qed
    with eq show ?thesis by simp
  qed
qed

lemma extractLoop_none:
  assumes "start \<le> i" "i \<le> length input"
    and "tracked (slice input start i) = (d, s, e)" "1 \<le> d"
    and "\<forall>j. i < j \<and> j \<le> length input \<longrightarrow> depth_after (slice input start j) \<noteq> 0"
  shows "extractLoop input start i d s e = ('''', False)"
  using assms
proof (induction "length input - i" arbitrary: i d s e)
  case 0
  then have "\<not> i < length input" by simp
  then show ?case by (subst extractLoop.simps) simp
next
  case (Suc n)
  obtain d' s' e' where tr: "track (d, s, e) (input ! i) = (d', s', e')"
    by (cases "track (d, s, e) (input ! i)") auto
  from Suc.hyps(2) have il: "i < length input" by simp
  have tk: "tracked (slice input start (Suc i)) = (d', s', e')"
    using tracked_slice_Suc [OF Suc.prems(1) il] Suc.prems(3) tr by simp
  note st = extractLoop_step [OF il Suc.prems(4) tr, of start]
  from Suc.prems(5) il tk have "d' \<noteq> 0" by (auto simp: depth_after_def)
  with st have d1: "1 \<le> d'"
    and eq: "extractLoop input start i d s e = extractLoop input start (Suc i) d' s' e'"
    by auto
  have "extractLoop input start (Suc i) d' s' e' = ('''', False)"
  proof (rule Suc.hyps(1))
    show "n = length input - Suc i" using Suc.hyps(2) by simp
    show "start \<le> Suc i" using Suc.prems(1) by simp
    show "Suc i \<le> length input" using il by simp
    show "tracked (slice input start (Suc i)) = (d', s', e')" by (rule tk)
    show "1 \<le> d'" by (rule d1)
    show "\<forall>j. Suc i < j \<and> j \<le> length input \<longrightarrow> depth_after (slice input start j) \<noteq> 0"
      using Suc.prems(5) by auto
  qed
  with eq show ?case by simp
qed

lemma extractLoop_first:
  assumes "start < length input" "input ! start = CHR ''[''"
  shows "extractLoop input start start 0 False False =
         extractLoop input start (Suc start) 1 False False"
  using assms by (subst extractLoop.simps) simp

lemma tracked_bracket: "tracked [CHR ''[''] = (1, False, False)"
  by (simp add: tracked_def)

lemma slice_append_pre: "slice (pre @ t) (length pre) (length pre + n) = take n t"
  by (simp add: slice_def)

lemma extractJSONArray_found:
  assumes pre: "CHR ''['' \<notin> set pre" and cf: "closes_first cand"
  shows "extractJSONArray (pre @ cand @ rest) = (cand, True)"
proof -
  let ?input = "pre @ cand @ rest"
  let ?start = "length pre"
  let ?k = "length pre + length cand"
  from cf obtain c' where cand: "cand = CHR ''['' # c'"
    by (cases cand) (auto simp: closes_first_def)
  have idx: "Index ?input (CHR ''['') = Some ?start"
    using Index_append_first [OF pre] cand by simp
  have sl: "slice ?input ?start (?start + n) = take n cand" if "n \<le> length cand" for n
    using slice_append_pre [of pre "cand @ rest" n] that by simp
  have fst: "extractLoop ?input ?start ?start 0 False False =
             extractLoop ?input ?start (Suc ?start) 1 False False"
    by (rule extractLoop_first) (simp_all add: cand nth_append)
  have "depth_after (take 1 cand) \<noteq> 0"
    by (simp add: cand depth_after_def tracked_bracket)
  with cf have len: "1 < length cand"
    by (cases "length cand = 1") (auto simp: closes_first_def cand)
  have "extractLoop ?input ?start (Suc ?start) 1 False False = (slice ?input ?start ?k, True)"
  proof (rule extractLoop_found)
    show "?start \<le> Suc ?start" by simp
    show "Suc ?start < ?k" using len by simp
    show "?k \<le> length ?input" by simp
    show "tracked (slice ?input ?start (Suc ?start)) = (1, False, False)"
      using sl [of 1] len by (simp add: cand tracked_bracket)
    show "(1::int) \<le> 1" by simp
    show "depth_after (slice ?input ?start ?k) = 0"
      using sl [of "length cand"] cf by (simp add: closes_first_def)
    show "\<forall>j. Suc ?start < j \<and> j < ?k \<longrightarrow> depth_after (slice ?input ?start j) \<noteq> 0"
    proof (intro allI impI)
      fix j assume j: "Suc ?start < j \<and> j < ?k"
      then have "j = ?start + (j - ?start)" and n: "j - ?start \<in> {1..<length cand}" by auto
      then have "slice ?input ?start j = take (j - ?start) cand"
        using sl [of "j - ?start"] by simp
      with cf n show "depth_after (slice ?input ?start j) \<noteq> 0"
        by (simp add: closes_first_def)
    qed
  qed
  with fst idx sl [of "length cand"] show ?thesis
    by (simp add: extractJSONArray_def)
qed

lemma extractJSONArray_never:
  assumes pre: "CHR ''['' \<notin> set pre" and nc: "never_closes tail"
  shows "extractJSONArray (pre @ tail) = ('''', False)"
proof -
  let ?input = "pre @ tail"
  let ?start = "length pre"
  from nc obtain c' where tail: "tail = CHR ''['' # c'"
    by (cases tail) (auto simp: never_closes_def)
  have idx: "Index ?input (CHR ''['') = Some ?start"
    using Index_append_first [OF pre] tail by simp
  have sl: "slice ?input ?start (?start + n) = take n tail" for n
    by (rule slice_append_pre)
  have fst: "extractLoop ?input ?start ?start 0 False False =
             extractLoop ?input ?start (Suc ?start) 1 False False"
    by (rule extractLoop_first) (simp_all add: tail nth_append)
  have "extractLoop ?input ?start (Suc ?start) 1 False False = ('''', False)"
  proof (rule extractLoop_none)
    show "?start \<le> Suc ?start" by simp
    show "Suc ?start \<le> length ?input" by (simp add: tail)
    show "tracked (slice ?input ?start (Suc ?start)) = (1, False, False)"
      using sl [of 1] by (simp add: tail tracked_bracket)
    show "(1::int) \<le> 1" by simp
    show "\<forall>j. Suc ?start < j \<and> j \<le> length ?input \<longrightarrow> depth_after (slice ?input ?start j) \<noteq> 0"
    proof (intro allI impI)
      fix j assume j: "Suc ?start < j \<and> j \<le> length ?input"
      then have "j = ?start + (j - ?start)" and n: "j - ?start \<in> {1..length tail}" by auto
      then have "slice ?input ?start j = take (j - ?start) tail"
        using sl [of "j - ?start"] by simp
      with nc n show "depth_after (slice ?input ?start j) \<noteq> 0"
        by (simp add: never_closes_def)
    qed
  qed
  with fst idx show ?thesis
    by (simp add: extractJSONArray_def)
qed

lemma extractJSONArray_no_bracket:
  "CHR ''['' \<notin> set input \<Longrightarrow> extractJSONArray input = ('''', False)"
  using Index_None_iff [of input "CHR ''[''"] by (simp add: extractJSONArray_def)

text \<open>
  A text with a \<open>[\<close> splits at the first one, and what follows either has a shortest
  prefix that closes or never closes.
\<close>

lemma bracket_cases:
  assumes "CHR ''['' \<in> set input"
  shows "(\<exists>pre cand rest. input = pre @ cand @ rest \<and> CHR ''['' \<notin> set pre \<and> closes_first cand) \<or>
         (\<exists>pre tail. input = pre @ tail \<and> CHR ''['' \<notin> set pre \<and> never_closes tail)"
proof -
  from split_list_first [OF assms] obtain pre tl where
    inp: "input = pre @ CHR ''['' # tl" and pre: "CHR ''['' \<notin> set pre" by blast
  define tail where "tail = CHR ''['' # tl"
  show ?thesis
  proof (cases "\<exists>n \<in> {1..length tail}. depth_after (take n tail) = 0")
    case False
    then have "never_closes tail" by (simp add: never_closes_def tail_def)
    with inp pre show ?thesis unfolding tail_def by blast
  next
    case True
    define P where "P n \<longleftrightarrow> n \<in> {1..length tail} \<and> depth_after (take n tail) = 0" for n
    from True have "\<exists>n. P n" by (auto simp: P_def)
    then obtain n where Pn: "P n" and least: "\<And>m. m < n \<Longrightarrow> \<not> P m"
      using exists_least_iff [of P] by auto
    define cand where "cand = take n tail"
    have n: "1 \<le> n" "n \<le> length tail" and d0: "depth_after cand = 0"
      using Pn by (auto simp: P_def cand_def)
    have "closes_first cand"
      unfolding closes_first_def
    proof (intro conjI ballI)
      show "cand \<noteq> []" using n by (auto simp: cand_def tail_def)
      show "hd cand = CHR ''[''" using n by (cases n) (auto simp: cand_def tail_def)
      show "depth_after cand = 0" by (rule d0)
      fix m assume m: "m \<in> {1..<length cand}"
      then have mn: "m < n" by (simp add: cand_def)
      then have "take m cand = take m tail" by (simp add: cand_def min_def)
      moreover from least [OF mn] m n mn have "depth_after (take m tail) \<noteq> 0"
        by (auto simp: P_def)
      ultimately show "depth_after (take m cand) \<noteq> 0" by simp
    qed
    moreover have "input = pre @ cand @ drop n tail"
      by (simp add: inp cand_def tail_def)
    ultimately show ?thesis using pre by blast
  qed
qed

lemma ball_upt: "(\<forall>n \<in> {a..<b}. P n) \<longleftrightarrow> list_all P [a..<b]"
  by (simp add: list_all_iff)

lemma ball_upt_incl: "(\<forall>n \<in> {a..b}. P n) \<longleftrightarrow> list_all P [a..<Suc b]"
  by (auto simp add: list_all_iff)

text \<open>
  C3. For every text, \<^verbatim>\<open>extractJSONArray\<close> returns found = true with a substring
  \<open>out\<close> exactly when \<open>out\<close> starts at the first \<open>[\<close> of the text and ends at the
  \<open>]\<close> where the tracked depth is zero for the first time; it returns the empty string
  and found = false exactly when the text has no \<open>[\<close>, or the depth never returns to
  zero from the first \<open>[\<close> to the end of the text; and it returns nothing else.
\<close>

theorem extractJSONArray_first_balanced:
  "(extractJSONArray input = (out, True) \<longleftrightarrow>
      (\<exists>pre rest. input = pre @ out @ rest \<and> CHR ''['' \<notin> set pre \<and> closes_first out)) \<and>
   (extractJSONArray input = ('''', False) \<longleftrightarrow>
      CHR ''['' \<notin> set input \<or>
      (\<exists>pre tail. input = pre @ tail \<and> CHR ''['' \<notin> set pre \<and> never_closes tail)) \<and>
   (snd (extractJSONArray input) \<or> extractJSONArray input = ('''', False))"
proof (cases "CHR ''['' \<in> set input")
  case False
  then have r: "extractJSONArray input = ('''', False)" by (simp add: extractJSONArray_no_bracket)
  have "\<not> (\<exists>pre rest. input = pre @ out @ rest \<and> CHR ''['' \<notin> set pre \<and> closes_first out)"
  proof
    assume "\<exists>pre rest. input = pre @ out @ rest \<and> CHR ''['' \<notin> set pre \<and> closes_first out"
    then obtain pre rest where "input = pre @ out @ rest" "closes_first out" by blast
    then have "CHR ''['' \<in> set input" by (cases out) (auto simp: closes_first_def)
    with False show False by simp
  qed
  with r False show ?thesis by simp
next
  case True
  from bracket_cases [OF True] show ?thesis
  proof
    assume "\<exists>pre cand rest. input = pre @ cand @ rest \<and> CHR ''['' \<notin> set pre \<and> closes_first cand"
    then obtain pre cand rest where
      c: "input = pre @ cand @ rest" "CHR ''['' \<notin> set pre" "closes_first cand" by blast
    then have r: "extractJSONArray input = (cand, True)" by (simp add: extractJSONArray_found)
    have "\<not> (\<exists>pre tail. input = pre @ tail \<and> CHR ''['' \<notin> set pre \<and> never_closes tail)"
    proof
      assume "\<exists>pre tail. input = pre @ tail \<and> CHR ''['' \<notin> set pre \<and> never_closes tail"
      then obtain p t where "input = p @ t" "CHR ''['' \<notin> set p" "never_closes t" by blast
      then have "extractJSONArray input = ('''', False)" by (simp add: extractJSONArray_never)
      with r show False by simp
    qed
    moreover have "(\<exists>pre rest. input = pre @ out @ rest \<and> CHR ''['' \<notin> set pre \<and> closes_first out)
        \<longleftrightarrow> out = cand"
    proof
      assume "\<exists>pre rest. input = pre @ out @ rest \<and> CHR ''['' \<notin> set pre \<and> closes_first out"
      then obtain p q where "input = p @ out @ q" "CHR ''['' \<notin> set p" "closes_first out" by blast
      then have "extractJSONArray input = (out, True)" by (simp add: extractJSONArray_found)
      with r show "out = cand" by simp
    next
      assume "out = cand"
      with c show "\<exists>pre rest. input = pre @ out @ rest \<and> CHR ''['' \<notin> set pre \<and> closes_first out"
        by blast
    qed
    ultimately show ?thesis using r True by auto
  next
    assume n: "\<exists>pre tail. input = pre @ tail \<and> CHR ''['' \<notin> set pre \<and> never_closes tail"
    then obtain p t where "input = p @ t" "CHR ''['' \<notin> set p" "never_closes t" by blast
    then have r: "extractJSONArray input = ('''', False)" by (simp add: extractJSONArray_never)
    have "\<not> (\<exists>pre rest. input = pre @ out @ rest \<and> CHR ''['' \<notin> set pre \<and> closes_first out)"
    proof
      assume "\<exists>pre rest. input = pre @ out @ rest \<and> CHR ''['' \<notin> set pre \<and> closes_first out"
      then obtain p q where "input = p @ out @ q" "CHR ''['' \<notin> set p" "closes_first out" by blast
      then have "extractJSONArray input = (out, True)" by (simp add: extractJSONArray_found)
      with r show False by simp
    qed
    with r n show ?thesis by simp
  qed
qed

theorem extractJSONArray_first_balanced_witness:
  "closes_first ''[1, [2]]'' \<and> extractJSONArray ''x [1, [2]] y'' = (''[1, [2]]'', True) \<and>
   never_closes ''[1, [2]'' \<and> extractJSONArray ''x [1, [2]'' = ('''', False)"
proof -
  have cf: "closes_first ''[1, [2]]''"
    by (simp add: closes_first_def ball_upt upt_conv_Cons depth_after_def tracked_def)
  have nc: "never_closes ''[1, [2]''"
    by (simp add: never_closes_def ball_upt_incl upt_conv_Cons depth_after_def tracked_def)
  have a: "\<exists>pre rest. ''x [1, [2]] y'' = pre @ ''[1, [2]]'' @ rest \<and> CHR ''['' \<notin> set pre \<and>
      closes_first ''[1, [2]]''"
    using cf by (intro exI [of _ "''x ''"] exI [of _ "'' y''"]) simp
  have b: "\<exists>pre tail. ''x [1, [2]'' = pre @ tail \<and> CHR ''['' \<notin> set pre \<and> never_closes tail"
    using nc by (intro exI [of _ "''x ''"] exI [of _ "''[1, [2]''"]) simp
  have r1: "extractJSONArray ''x [1, [2]] y'' = (''[1, [2]]'', True)"
    using extractJSONArray_first_balanced [of "''x [1, [2]] y''" "''[1, [2]]''", THEN conjunct1] a
    by (rule iffD2)
  have r2: "extractJSONArray ''x [1, [2]'' = ('''', False)"
    using extractJSONArray_first_balanced [of "''x [1, [2]''" "''''", THEN conjunct2, THEN conjunct1] b
    by (rule iffD2 [OF _ disjI2])
  from cf nc r1 r2 show ?thesis by (intro conjI)
qed

text \<open>
  C10. The scan of \<^verbatim>\<open>extractJSONArray\<close> begins at the first \<open>[\<close> byte of the input
  with depth zero and the in-string flag false, whatever precedes that byte. In the text
  \<^verbatim>\<open>"[" [1]\<close> the first \<open>[\<close> (index 1) stands inside a quoted region, where a scan
  from the start of the text would be in a string; the extractor opens its scan there,
  reads the closing quote as an opening one, and returns found = false, although the
  text contains the complete array \<^verbatim>\<open>[1]\<close>, which alone is extracted.
\<close>

theorem extractJSONArray_bracket_inside_quotes:
  \<open>extractJSONArray input =
     (case Index input (CHR ''['') of
        None \<Rightarrow> ('''', False)
      | Some start \<Rightarrow> extractLoop input start start 0 False False) \<and>
   Index ''"[" [1]'' (CHR ''['') = Some 1 \<and>
   tracked ''"'' = (0, True, False) \<and>
   ''"[" [1]'' = ''"[" '' @ ''[1]'' \<and>
   extractJSONArray ''[1]'' = (''[1]'', True) \<and>
   extractJSONArray ''"[" [1]'' = ('''', False)\<close>
proof (intro conjI)
  show "extractJSONArray input =
     (case Index input (CHR ''['') of
        None \<Rightarrow> ('''', False)
      | Some start \<Rightarrow> extractLoop input start start 0 False False)"
    by (simp add: extractJSONArray_def)
  show \<open>Index ''"[" [1]'' (CHR ''['') = Some 1\<close> by simp
  show \<open>tracked ''"'' = (0, True, False)\<close> by (simp add: tracked_def)
  show \<open>''"[" [1]'' = ''"[" '' @ ''[1]''\<close> by simp
  show \<open>extractJSONArray ''[1]'' = (''[1]'', True)\<close> by code_simp
  show \<open>extractJSONArray ''"[" [1]'' = ('''', False)\<close> by code_simp
qed

section \<open>Properties of the JSON parser\<close>

text \<open>
  Every successful parse consumes input, which bounds the number of nested calls by the
  length of the text.
\<close>


lemma skipSpace_length: "length (skipSpace s) \<le> length s"
  by (simp add: skipSpace_def length_dropWhile_le)

lemma skipSpace_Cons_length: "skipSpace s = c # cs \<Longrightarrow> length cs < length s"
  using skipSpace_length [of s] by simp

lemma emit_Some: "emit bs res = Some (t, r) \<longleftrightarrow> (\<exists>t'. res = Some (t', r) \<and> t = bs @ t')"
  by (cases res) (auto simp: emit_def)

lemma DecodeRuneInString_width: "0 < snd (DecodeRuneInString s)"
  by (auto simp: DecodeRuneInString_def decoderune_def Let_def)

lemma stringBody_rest: "stringBody s = Some (t, r) \<Longrightarrow> length r < length s"
proof (induction s arbitrary: t r rule: stringBody.induct)
  case (1 s)
  from "1.prems" have ne: "s \<noteq> []" by (subst (asm) stringBody.simps) (simp split: if_splits)
  show ?case
  proof (cases "hd s = CHR 0x22")
    case True
    with "1.prems" ne show ?thesis
      by (subst (asm) stringBody.simps) (cases s, auto)
  next
    case nq: False
    show ?thesis
    proof (cases "hd s = CHR 0x5C")
      case True
      with "1.prems" ne nq have l2: "\<not> length s < 2"
        by (subst (asm) stringBody.simps) (simp split: if_splits)
      show ?thesis
      proof (cases "s ! 1 = CHR ''u''")
        case u: True
        with "1.prems" ne nq True l2 obtain rr where g: "getu4 s = Some rr"
          by (subst (asm) stringBody.simps) (auto split: option.splits)
        show ?thesis
        proof (cases "IsSurrogate rr")
          case s: True
          show ?thesis
          proof (cases "surrogatePair rr (getu4 (drop 6 s))")
            case None
            with "1.prems" ne nq True l2 u g s obtain t' where
              "stringBody (drop 6 s) = Some (t', r)"
              by (subst (asm) stringBody.simps) (auto simp: emit_Some)
            from "1.IH"(1) [OF ne nq True l2 u g s None this] show ?thesis by simp
          next
            case (Some dec)
            with "1.prems" ne nq True l2 u g s obtain t' where
              "stringBody (drop 12 s) = Some (t', r)"
              by (subst (asm) stringBody.simps) (auto simp: emit_Some)
            from "1.IH"(2) [OF ne nq True l2 u g s Some this] show ?thesis by simp
          qed
        next
          case s: False
          with "1.prems" ne nq True l2 u g obtain t' where
            "stringBody (drop 6 s) = Some (t', r)"
            by (subst (asm) stringBody.simps) (auto simp: emit_Some)
          from "1.IH"(3) [OF ne nq True l2 u g s this] show ?thesis by simp
        qed
      next
        case u: False
        with "1.prems" ne nq True l2 obtain b t' where
          b: "unescape (s ! 1) = Some b" and "stringBody (drop 2 s) = Some (t', r)"
          by (subst (asm) stringBody.simps) (auto simp: emit_Some split: option.splits)
        from "1.IH"(4) [OF ne nq True l2 u b this(2)] show ?thesis by simp
      qed
    next
      case nb: False
      with "1.prems" ne nq have c: "\<not> byte (hd s) < 0x20"
        by (subst (asm) stringBody.simps) (simp split: if_splits)
      show ?thesis
      proof (cases "byte (hd s) < 0x80")
        case True
        with "1.prems" ne nq nb c obtain t' where "stringBody (tl s) = Some (t', r)"
          by (subst (asm) stringBody.simps) (auto simp: emit_Some)
        from "1.IH"(5) [OF ne nq nb c True this] ne show ?thesis by (cases s) auto
      next
        case False
        obtain rn n where d: "DecodeRuneInString s = (rn, n)"
          by (cases "DecodeRuneInString s") auto
        with "1.prems" ne nq nb c False obtain t' where "stringBody (drop n s) = Some (t', r)"
          by (subst (asm) stringBody.simps) (auto simp: emit_Some)
        from "1.IH"(6) [OF ne nq nb c False d [symmetric] this] show ?thesis by simp
      qed
    qed
  qed
qed


lemma intPart_rest: "intPart s = Some (t, r) \<Longrightarrow> length r < length s"
  by (cases s) (auto simp: intPart_def less_Suc_eq_le length_dropWhile_le split: if_splits)

lemma digits1_rest: "digits1 s = Some (t, r) \<Longrightarrow> length r < length s"
  by (cases s) (auto simp: digits1_def less_Suc_eq_le length_dropWhile_le split: if_splits)

lemma fracPart_rest: "fracPart s = Some (t, r) \<Longrightarrow> length r \<le> length s"
  by (cases s) (auto simp: fracPart_def emit_Some dest!: digits1_rest split: if_splits)

lemma expPart_rest: "expPart s = Some (t, r) \<Longrightarrow> length r \<le> length s"
  by (cases s; cases "tl s") (auto simp: expPart_def emit_Some dest!: digits1_rest split: if_splits)

lemma numberLiteral_rest:
  assumes "numberLiteral s = Some (t, r)"
  shows "length r < length s"
proof -
  define s0 where "s0 = drop (length (if s \<noteq> [] \<and> hd s = CHR ''-'' then ''-'' else [])) s"
  from assms obtain i s1 f s2 e where
    p: "intPart s0 = Some (i, s1)" "fracPart s1 = Some (f, s2)" "expPart s2 = Some (e, r)"
    by (auto simp: numberLiteral_def Let_def s0_def split: option.splits)
  have "length s0 \<le> length s" by (simp add: s0_def)
  with intPart_rest [OF p(1)] fracPart_rest [OF p(2)] expPart_rest [OF p(3)]
  show ?thesis by linarith
qed

lemma parse_fuel_aux:
  "(\<forall>d s v r. parseValue m d s = Some (v, r) \<longrightarrow>
      length r < length s \<and> (\<forall>n. 2 * length s + 1 \<le> n \<longrightarrow> parseValue n d s = Some (v, r))) \<and>
   (\<forall>d s vs r. parseElements m d s = Some (vs, r) \<longrightarrow>
      length r < length s \<and> (\<forall>n. 2 * length s + 2 \<le> n \<longrightarrow> parseElements n d s = Some (vs, r))) \<and>
   (\<forall>d s ms r. parseMembers m d s = Some (ms, r) \<longrightarrow>
      length r < length s \<and> (\<forall>n. 2 * length s + 2 \<le> n \<longrightarrow> parseMembers n d s = Some (ms, r)))"
proof (induction m)
  case 0
  show ?case by simp
next
  case (Suc m)
  then have
    V: "\<And>d s v r. parseValue m d s = Some (v, r) \<Longrightarrow> length r < length s" and
    V': "\<And>d s v r n. parseValue m d s = Some (v, r) \<Longrightarrow> 2 * length s + 1 \<le> n \<Longrightarrow>
           parseValue n d s = Some (v, r)" and
    E: "\<And>d s v r. parseElements m d s = Some (v, r) \<Longrightarrow> length r < length s" and
    E': "\<And>d s v r n. parseElements m d s = Some (v, r) \<Longrightarrow> 2 * length s + 2 \<le> n \<Longrightarrow>
           parseElements n d s = Some (v, r)" and
    M: "\<And>d s v r. parseMembers m d s = Some (v, r) \<Longrightarrow> length r < length s" and
    M': "\<And>d s v r n. parseMembers m d s = Some (v, r) \<Longrightarrow> 2 * length s + 2 \<le> n \<Longrightarrow>
           parseMembers n d s = Some (v, r)"
    by blast+
  have vcase: "length r < length s \<and> (\<forall>n. 2 * length s + 1 \<le> n \<longrightarrow> parseValue n d s = Some (v, r))"
    if p: "parseValue (Suc m) d s = Some (v, r)" for d s v r
  proof -
    from p obtain c cs where sk: "skipSpace s = c # cs"
      by (cases "skipSpace s") auto
    note len = skipSpace_Cons_length [OF sk]
    have n: "\<exists>k. n = Suc k \<and> 2 * length cs + 2 \<le> k" if "2 * length s + 1 \<le> n" for n
      using that len by (cases n) auto
    consider (obj) "c = CHR ''{''" | (arr) "c \<noteq> CHR ''{''" "c = CHR ''[''"
      | (other) "c \<noteq> CHR ''{''" "c \<noteq> CHR ''[''" by blast
    then show ?thesis
    proof cases
      case obj
      with p sk have dp: "\<not> maxNestingDepth < d + 1" by (auto split: if_splits)
      from p sk obj dp obtain e es where sk2: "skipSpace cs = e # es"
        by (cases "skipSpace cs") auto
      show ?thesis
      proof (cases "e = CHR ''}''")
        case True
        with p sk obj dp sk2 have r: "v = JObject []" "r = es" by auto
        from skipSpace_Cons_length [OF sk2] len r have "length r < length s" by simp
        moreover have "parseValue n d s = Some (v, r)" if "2 * length s + 1 \<le> n" for n
          using n [OF that] sk obj dp sk2 True r by auto
        ultimately show ?thesis by blast
      next
        case False
        with p sk obj dp sk2 obtain ms where
          m: "parseMembers m (d + 1) cs = Some (ms, r)" and v: "v = JObject ms" by auto
        from M [OF m] len have "length r < length s" by simp
        moreover have "parseValue n d s = Some (v, r)" if "2 * length s + 1 \<le> n" for n
        proof -
          from n [OF that] obtain k where k: "n = Suc k" "2 * length cs + 2 \<le> k" by blast
          from M' [OF m k(2)] k sk obj dp sk2 False v show ?thesis by simp
        qed
        ultimately show ?thesis by blast
      qed
    next
      case arr
      with p sk have dp: "\<not> maxNestingDepth < d + 1" by (auto split: if_splits)
      from p sk arr dp obtain e es where sk2: "skipSpace cs = e # es"
        by (cases "skipSpace cs") auto
      show ?thesis
      proof (cases "e = CHR '']''")
        case True
        with p sk arr dp sk2 have r: "v = JArray []" "r = es" by auto
        from skipSpace_Cons_length [OF sk2] len r have "length r < length s" by simp
        moreover have "parseValue n d s = Some (v, r)" if "2 * length s + 1 \<le> n" for n
          using n [OF that] sk arr dp sk2 True r by auto
        ultimately show ?thesis by blast
      next
        case False
        with p sk arr dp sk2 obtain vs where
          m: "parseElements m (d + 1) cs = Some (vs, r)" and v: "v = JArray vs" by auto
        from E [OF m] len have "length r < length s" by simp
        moreover have "parseValue n d s = Some (v, r)" if "2 * length s + 1 \<le> n" for n
        proof -
          from n [OF that] obtain k where k: "n = Suc k" "2 * length cs + 2 \<le> k" by blast
          from E' [OF m k(2)] k sk arr dp sk2 False v show ?thesis by simp
        qed
        ultimately show ?thesis by blast
      qed
    next
      case other
      have same: "parseValue (Suc k) d s = parseValue (Suc m) d s" for k
        using sk other by simp
      have "length r < length s"
        using p sk other len
        by (auto split: if_splits dest!: stringBody_rest numberLiteral_rest)
      moreover have "parseValue n d s = Some (v, r)" if "2 * length s + 1 \<le> n" for n
        using n [OF that] same p by auto
      ultimately show ?thesis by blast
    qed
  qed
  have ecase: "length r < length s \<and>
      (\<forall>n. 2 * length s + 2 \<le> n \<longrightarrow> parseElements n d s = Some (vs, r))"
    if p: "parseElements (Suc m) d s = Some (vs, r)" for d s vs r
  proof -
    from p obtain v r1 where pv: "parseValue m d s = Some (v, r1)"
      by (cases "parseValue m d s") auto
    from p pv obtain c cs where sk: "skipSpace r1 = c # cs"
      by (cases "skipSpace r1") auto
    from V [OF pv] skipSpace_Cons_length [OF sk] have len: "length cs + 2 \<le> length s" by simp
    have n: "\<exists>k. n = Suc k \<and> 2 * length s + 1 \<le> k \<and> 2 * length cs + 2 \<le> k"
      if "2 * length s + 2 \<le> n" for n
      using that len by (cases n) auto
    show ?thesis
    proof (cases "c = CHR '',''")
      case True
      with p pv sk obtain vs' where
        m: "parseElements m d cs = Some (vs', r)" and v: "vs = v # vs'" by auto
      from E [OF m] len have "length r < length s" by simp
      moreover have "parseElements n d s = Some (vs, r)" if "2 * length s + 2 \<le> n" for n
      proof -
        from n [OF that] obtain k where
          k: "n = Suc k" "2 * length s + 1 \<le> k" "2 * length cs + 2 \<le> k" by blast
        from V' [OF pv k(2)] E' [OF m k(3)] k sk True v show ?thesis by simp
      qed
      ultimately show ?thesis by blast
    next
      case False
      with p pv sk have r: "c = CHR '']''" "vs = [v]" "r = cs" by (auto split: if_splits)
      from len r have "length r < length s" by simp
      moreover have "parseElements n d s = Some (vs, r)" if "2 * length s + 2 \<le> n" for n
      proof -
        from n [OF that] obtain k where
          k: "n = Suc k" "2 * length s + 1 \<le> k" by blast
        from V' [OF pv k(2)] k sk False r show ?thesis by simp
      qed
      ultimately show ?thesis by blast
    qed
  qed
  have mcase: "length r < length s \<and>
      (\<forall>n. 2 * length s + 2 \<le> n \<longrightarrow> parseMembers n d s = Some (ms, r))"
    if p: "parseMembers (Suc m) d s = Some (ms, r)" for d s ms r
  proof -
    from p obtain q qs where sk0: "skipSpace s = q # qs"
      by (cases "skipSpace s") auto
    from p sk0 have q: "q = CHR 0x22" by (auto split: if_splits)
    from p sk0 q obtain k0 r0 where sb: "stringBody qs = Some (k0, r0)"
      by (cases "stringBody qs") auto
    from p sk0 q sb obtain c cs where sk1: "skipSpace r0 = c # cs"
      by (cases "skipSpace r0") auto
    from p sk0 q sb sk1 have c: "c = CHR '':''" by (auto split: if_splits)
    from p sk0 q sb sk1 c obtain v r1 where pv: "parseValue m d cs = Some (v, r1)"
      by (cases "parseValue m d cs") auto
    from p sk0 q sb sk1 c pv obtain e es where sk2: "skipSpace r1 = e # es"
      by (cases "skipSpace r1") auto
    from skipSpace_Cons_length [OF sk0] stringBody_rest [OF sb] skipSpace_Cons_length [OF sk1]
    have l1: "length cs + 2 \<le> length s" by simp
    from V [OF pv] skipSpace_Cons_length [OF sk2] l1 have l2: "length es + 2 \<le> length s" by simp
    have n: "\<exists>k. n = Suc k \<and> 2 * length cs + 1 \<le> k \<and> 2 * length es + 2 \<le> k"
      if "2 * length s + 2 \<le> n" for n
      using that l1 l2 by (cases n) auto
    show ?thesis
    proof (cases "e = CHR '',''")
      case True
      with p sk0 q sb sk1 c pv sk2 obtain ms' where
        m: "parseMembers m d es = Some (ms', r)" and v: "ms = (k0, v) # ms'" by auto
      from M [OF m] l2 have "length r < length s" by simp
      moreover have "parseMembers n d s = Some (ms, r)" if "2 * length s + 2 \<le> n" for n
      proof -
        from n [OF that] obtain k where
          k: "n = Suc k" "2 * length cs + 1 \<le> k" "2 * length es + 2 \<le> k" by blast
        from V' [OF pv k(2)] M' [OF m k(3)] k sk0 q sb sk1 c sk2 True v show ?thesis by simp
      qed
      ultimately show ?thesis by blast
    next
      case False
      with p sk0 q sb sk1 c pv sk2 have r: "e = CHR ''}''" "ms = [(k0, v)]" "r = es"
        by (auto split: if_splits)
      from l2 r have "length r < length s" by simp
      moreover have "parseMembers n d s = Some (ms, r)" if "2 * length s + 2 \<le> n" for n
      proof -
        from n [OF that] obtain k where
          k: "n = Suc k" "2 * length cs + 1 \<le> k" by blast
        from V' [OF pv k(2)] k sk0 q sb sk1 c sk2 False r show ?thesis by simp
      qed
      ultimately show ?thesis by blast
    qed
  qed
  from vcase ecase mcase show ?case by blast
qed

text \<open>
  The bound on nested calls that \<open>parseJSON\<close> passes is never the reason for a
  rejection: whatever any bound parses, that one parses to the same value.
\<close>

lemma parseJSON_fuel:
  assumes "parseValue m 0 data = Some (v, rest)" and "skipSpace rest = []"
  shows "parseJSON data = Some v"
proof -
  note b = parse_fuel_aux [of m, THEN conjunct1, THEN spec, THEN spec, THEN spec, THEN spec,
      THEN mp, OF assms(1), THEN conjunct2, THEN spec, THEN mp]
  have "2 * length data + 1 \<le> 2 * length data + 2" by simp
  then have "parseValue (2 * length data + 2) 0 data = Some (v, rest)" by (rule b)
  with assms(2) show ?thesis by (simp add: parseJSON_def)
qed

section \<open>Properties of looksLikeFalseLiteral\<close>


lemma lettersLoop_eq:
  "lettersLoop u rs acc = acc @ map (ToLower u) (filter (IsLetter u) rs)"
  by (induction rs arbitrary: acc) auto

lemma normalized_eq: "normalized u input = runesToString (letters_lowercased u input)"
  by (simp add: normalized_def letters_lowercased_def lettersLoop_eq)

lemma byte_char_of: "byte (char_of (n::nat)) = n mod 256"
  by (simp add: byte_def)

lemma char_of_byte: "char_of (byte c) = c"
  by (simp add: byte_def)

lemma encoderune_ascii: "r < 0x80 \<Longrightarrow> encoderune r = [char_of r]"
  by (simp add: encoderune_def)

lemma encoderune_beyond:
  assumes "0x80 \<le> r"
  shows "\<exists>b bs. encoderune r = b # bs \<and> 0x80 \<le> byte b"
proof -
  consider "r \<le> 0x7FF" | "0x7FF < r" "0x10FFFF < r \<or> (0xD800 \<le> r \<and> r \<le> 0xDFFF)"
    | "0x7FF < r" "\<not> (0x10FFFF < r \<or> (0xD800 \<le> r \<and> r \<le> 0xDFFF))" "r \<le> 0xFFFF"
    | "0xFFFF < r" "r \<le> 0x10FFFF" by linarith
  then show ?thesis
  proof cases
    case 1
    then have "r div 64 < 32" by simp
    then have "(0xC0 + r div 64) mod 256 = 0xC0 + r div 64" by simp
    with 1 assms show ?thesis by (simp add: encoderune_def byte_char_of)
  next
    case 2
    with assms show ?thesis by (auto simp add: encoderune_def byte_char_of)
  next
    case 3
    then have "r div 4096 < 16" by simp
    then have "(0xE0 + r div 4096) mod 256 = 0xE0 + r div 4096" by simp
    with 3 assms show ?thesis by (simp add: encoderune_def byte_char_of)
  next
    case 4
    then have "r div 262144 < 8" by simp
    then have "(0xF0 + r div 262144) mod 256 = 0xF0 + r div 262144" by simp
    with 4 assms show ?thesis by (simp add: encoderune_def byte_char_of)
  qed
qed

lemma runesToString_Cons: "runesToString (r # rs) = encoderune r @ runesToString rs"
  by (simp add: runesToString_def)

lemma runesToString_ascii_iff:
  assumes "\<forall>c \<in> set t. byte c < 0x80"
  shows "runesToString L = t \<longleftrightarrow> L = ascii t"
  using assms
proof (induction L arbitrary: t)
  case Nil
  then show ?case by (auto simp: runesToString_def ascii_def)
next
  case (Cons r L)
  show ?case
  proof (cases "r < 0x80")
    case True
    show ?thesis
    proof (cases t)
      case Nil
      with True show ?thesis by (simp add: runesToString_Cons encoderune_ascii ascii_def)
    next
      case (Cons c t')
      with Cons.prems have c: "byte c < 0x80" and t': "\<forall>c \<in> set t'. byte c < 0x80" by auto
      have "char_of r = c \<longleftrightarrow> r = byte c"
        using True char_of_byte [of c] byte_char_of [of r] by auto
      with Cons.IH [OF t'] True Cons show ?thesis
        by (auto simp add: runesToString_Cons encoderune_ascii ascii_def)
    qed
  next
    case False
    then have "0x80 \<le> r" by simp
    from encoderune_beyond [OF this] obtain b bs where
      e: "encoderune r = b # bs" and b: "0x80 \<le> byte b" by blast
    have "runesToString (r # L) \<noteq> t"
    proof
      assume "runesToString (r # L) = t"
      then have "b \<in> set t" by (auto simp: runesToString_Cons e)
      with Cons.prems b show False by fastforce
    qed
    moreover have "r # L \<noteq> ascii t"
    proof
      assume "r # L = ascii t"
      then obtain c where "c \<in> set t" "byte c = r" by (cases t) (auto simp: ascii_def)
      with Cons.prems False show False by auto
    qed
    ultimately show ?thesis by simp
  qed
qed

lemma skeleton_bytes:
  "length n = 4 \<and> HasPrefix n ''f'' \<and> HasSuffix n ''lse'' \<longleftrightarrow> n = ''flse''"
proof
  assume a: "length n = 4 \<and> HasPrefix n ''f'' \<and> HasSuffix n ''lse''"
  then obtain a b c d where n: "n = [a, b, c, d]"
    by (cases n; cases "tl n"; cases "tl (tl n)"; cases "tl (tl (tl n))") auto
  with a show "n = ''flse''" by (simp add: HasPrefix_def HasSuffix_def)
next
  assume "n = ''flse''"
  then show "length n = 4 \<and> HasPrefix n ''f'' \<and> HasSuffix n ''lse''"
    by (simp add: HasPrefix_def HasSuffix_def)
qed

lemma skeleton_runes:
  "length L = 4 \<and> prefix (ascii ''f'') L \<and> suffix (ascii ''lse'') L \<longleftrightarrow> L = ascii ''flse''"
proof
  assume a: "length L = 4 \<and> prefix (ascii ''f'') L \<and> suffix (ascii ''lse'') L"
  then obtain a b c d where n: "L = [a, b, c, d]"
    by (cases L; cases "tl L"; cases "tl (tl L)"; cases "tl (tl (tl L))") auto
  with a show "L = ascii ''flse''" by (auto simp add: ascii_def suffix_def Cons_eq_append_conv)
next
  assume "L = ascii ''flse''"
  then show "length L = 4 \<and> prefix (ascii ''f'') L \<and> suffix (ascii ''lse'') L"
    by (auto simp add: ascii_def suffix_def)
qed

lemma looksLikeFalseLiteral_iff:
  "looksLikeFalseLiteral u input \<longleftrightarrow> normalized u input = ''false'' \<or> normalized u input = ''flse''"
  using skeleton_bytes [of "normalized u input"] by (auto simp add: looksLikeFalseLiteral_def)

lemma ascii_false: "\<forall>c \<in> set ''false''. byte c < 0x80"
  by (simp add: byte_def)

lemma ascii_flse: "\<forall>c \<in> set ''flse''. byte c < 0x80"
  by (simp add: byte_def)

lemma looksLikeFalseLiteral_letters:
  "looksLikeFalseLiteral u input \<longleftrightarrow>
     letters_lowercased u input = ascii ''false'' \<or> letters_lowercased u input = ascii ''flse''"
  by (simp add: looksLikeFalseLiteral_iff normalized_eq
      runesToString_ascii_iff [OF ascii_false] runesToString_ascii_iff [OF ascii_flse])

lemma rangeRunes_ascii: "\<forall>c \<in> set s. byte c < 0x80 \<Longrightarrow> rangeRunes s = map byte s"
proof (induction s)
  case Nil
  then show ?case by (subst rangeRunes.simps) simp
next
  case (Cons c s)
  then show ?case
    by (subst rangeRunes.simps) (simp add: DecodeRuneInString_def)
qed


lemma letters_examples:
  "letters_lowercased u ''false'' = ascii ''false''"
  "letters_lowercased u ''False'' = ascii ''false''"
  "letters_lowercased u ''f4lse'' = ascii ''flse''"
  "letters_lowercased u ''flse'' = ascii ''flse''"
  "letters_lowercased u ''true'' = ascii ''true''"
  "letters_lowercased u '''' = ascii ''''"
  "letters_lowercased u ''fxlse'' = ascii ''fxlse''"
  by (simp_all add: letters_lowercased_def rangeRunes_ascii byte_def IsLetter_def ToLower_def ascii_def)

text \<open>
  C4. For every text, \<^verbatim>\<open>looksLikeFalseLiteral\<close> is true exactly when the letters of
  the input, lower-cased (digits and every other character dropped), are \<open>false\<close>, or
  are four letters that begin with \<open>f\<close> and end with \<open>lse\<close>. It accepts
  \<open>false\<close>, \<open>False\<close> and \<open>f4lse\<close> and rejects \<open>true\<close> and the empty text. The
  source compares the bytes of \<^verbatim>\<open>string(lettersOnly)\<close> and measures its length in
  bytes; the statement is about the sequence of letters, and holds for every content of
  the Unicode tables.
\<close>

theorem looksLikeFalseLiteral_rules:
  "(looksLikeFalseLiteral u input \<longleftrightarrow>
      letters_lowercased u input = ascii ''false'' \<or>
      (length (letters_lowercased u input) = 4 \<and>
       prefix (ascii ''f'') (letters_lowercased u input) \<and>
       suffix (ascii ''lse'') (letters_lowercased u input))) \<and>
   looksLikeFalseLiteral u ''false'' \<and>
   looksLikeFalseLiteral u ''False'' \<and>
   looksLikeFalseLiteral u ''f4lse'' \<and>
   \<not> looksLikeFalseLiteral u ''true'' \<and>
   \<not> looksLikeFalseLiteral u ''''"
proof (intro conjI)
  show "looksLikeFalseLiteral u input \<longleftrightarrow>
      letters_lowercased u input = ascii ''false'' \<or>
      (length (letters_lowercased u input) = 4 \<and>
       prefix (ascii ''f'') (letters_lowercased u input) \<and>
       suffix (ascii ''lse'') (letters_lowercased u input))"
    by (simp only: looksLikeFalseLiteral_letters skeleton_runes)
  show "looksLikeFalseLiteral u ''false''"
    by (simp add: looksLikeFalseLiteral_letters letters_examples)
  show "looksLikeFalseLiteral u ''False''"
    by (simp add: looksLikeFalseLiteral_letters letters_examples)
  show "looksLikeFalseLiteral u ''f4lse''"
    by (simp add: looksLikeFalseLiteral_letters letters_examples)
  show "\<not> looksLikeFalseLiteral u ''true''"
    by (simp add: looksLikeFalseLiteral_letters letters_examples ascii_def byte_def)
  show "\<not> looksLikeFalseLiteral u ''''"
    by (simp add: looksLikeFalseLiteral_letters letters_examples ascii_def)
qed

text \<open>
  C9. The recognizer accepts exactly two sequences of letters: it is true exactly when
  the lower-cased letters of the text are \<open>false\<close> or \<open>flse\<close> (equivalently, when
  the normalized string of the source is one of the two). \<open>fxlse\<close>, where another
  letter stands for the \<open>a\<close>, keeps five letters and is rejected; \<open>f4lse\<close> (a digit
  for the \<open>a\<close>) and \<open>flse\<close> (the \<open>a\<close> dropped) are accepted.
\<close>

theorem looksLikeFalseLiteral_two_skeletons:
  "(looksLikeFalseLiteral u t \<longleftrightarrow>
      letters_lowercased u t = ascii ''false'' \<or> letters_lowercased u t = ascii ''flse'') \<and>
   (looksLikeFalseLiteral u t \<longleftrightarrow> normalized u t = ''false'' \<or> normalized u t = ''flse'') \<and>
   letters_lowercased u ''fxlse'' = ascii ''fxlse'' \<and>
   length (letters_lowercased u ''fxlse'') = 5 \<and>
   \<not> looksLikeFalseLiteral u ''fxlse'' \<and>
   letters_lowercased u ''f4lse'' = ascii ''flse'' \<and>
   looksLikeFalseLiteral u ''f4lse'' \<and>
   looksLikeFalseLiteral u ''flse''"
proof (intro conjI)
  show "looksLikeFalseLiteral u t \<longleftrightarrow>
      letters_lowercased u t = ascii ''false'' \<or> letters_lowercased u t = ascii ''flse''"
    by (rule looksLikeFalseLiteral_letters)
  show "looksLikeFalseLiteral u t \<longleftrightarrow> normalized u t = ''false'' \<or> normalized u t = ''flse''"
    by (rule looksLikeFalseLiteral_iff)
  show "letters_lowercased u ''fxlse'' = ascii ''fxlse''"
    by (rule letters_examples)
  show "length (letters_lowercased u ''fxlse'') = 5"
    by (simp add: letters_examples ascii_def)
  show "\<not> looksLikeFalseLiteral u ''fxlse''"
    by (simp add: looksLikeFalseLiteral_letters letters_examples ascii_def byte_def)
  show "letters_lowercased u ''f4lse'' = ascii ''flse''"
    by (rule letters_examples)
  show "looksLikeFalseLiteral u ''f4lse''"
    by (simp add: looksLikeFalseLiteral_letters letters_examples)
  show "looksLikeFalseLiteral u ''flse''"
    by (simp add: looksLikeFalseLiteral_letters letters_examples)
qed

section \<open>Properties of UnmarshalFileList\<close>


text \<open>
  C1. In \<open>string\<close> mode, when the outer string decodes and its trimmed text fails to
  parse as an array of \<^verbatim>\<open>FileDetail\<close> with error \<open>err\<close>: if the extractor finds a
  candidate in the trimmed text and the candidate parses, the result is the candidate's
  list; otherwise (no candidate, or a candidate that fails to parse), if the recognizer
  matches the trimmed text, the result is the explicitly empty slice; otherwise the
  function fails with the error that carries \<open>err\<close>, the failure of the first parse, and
  not the failure of the candidate's parse.
\<close>

theorem UnmarshalFileList_recovery_order:
  assumes "FileListMode sr = Some ''string''" "FileList sr = Some raw"
    and "Unmarshal_string raw = Inr rawString"
    and "Unmarshal_slice detail (TrimSpace rawString) = Inl err"
  shows
    "(\<forall>candidate fileList.
        extractJSONArray (TrimSpace rawString) = (candidate, True) \<and>
        Unmarshal_slice detail candidate = Inr fileList \<longrightarrow>
        UnmarshalFileList u detail entry sr = Inr (FileDetails fileList)) \<and>
     ((\<forall>candidate. extractJSONArray (TrimSpace rawString) = (candidate, True) \<longrightarrow>
          (\<exists>err2. Unmarshal_slice detail candidate = Inl err2)) \<and>
      looksLikeFalseLiteral u (TrimSpace rawString) \<longrightarrow>
        UnmarshalFileList u detail entry sr = Inr (FileDetails (Slice []))) \<and>
     ((\<forall>candidate. extractJSONArray (TrimSpace rawString) = (candidate, True) \<longrightarrow>
          (\<exists>err2. Unmarshal_slice detail candidate = Inl err2)) \<and>
      \<not> looksLikeFalseLiteral u (TrimSpace rawString) \<longrightarrow>
        UnmarshalFileList u detail entry sr =
          Inl (Errorf ''error parsing FileList into []FileDetail: '' (Some err)))"
proof (intro conjI allI impI)
  fix candidate fileList
  assume "extractJSONArray (TrimSpace rawString) = (candidate, True) \<and>
    Unmarshal_slice detail candidate = Inr fileList"
  with assms show "UnmarshalFileList u detail entry sr = Inr (FileDetails fileList)"
    by (simp add: UnmarshalFileList_def)
next
  assume a: "(\<forall>candidate. extractJSONArray (TrimSpace rawString) = (candidate, True) \<longrightarrow>
      (\<exists>err2. Unmarshal_slice detail candidate = Inl err2)) \<and>
    looksLikeFalseLiteral u (TrimSpace rawString)"
  obtain c ok where e: "extractJSONArray (TrimSpace rawString) = (c, ok)"
    by (cases "extractJSONArray (TrimSpace rawString)") auto
  show "UnmarshalFileList u detail entry sr = Inr (FileDetails (Slice []))"
  proof (cases ok)
    case True
    with a e obtain err2 where "Unmarshal_slice detail c = Inl err2" by auto
    with assms a e True show ?thesis by (simp add: UnmarshalFileList_def)
  next
    case False
    with assms a e show ?thesis by (simp add: UnmarshalFileList_def)
  qed
next
  assume a: "(\<forall>candidate. extractJSONArray (TrimSpace rawString) = (candidate, True) \<longrightarrow>
      (\<exists>err2. Unmarshal_slice detail candidate = Inl err2)) \<and>
    \<not> looksLikeFalseLiteral u (TrimSpace rawString)"
  obtain c ok where e: "extractJSONArray (TrimSpace rawString) = (c, ok)"
    by (cases "extractJSONArray (TrimSpace rawString)") auto
  show "UnmarshalFileList u detail entry sr =
    Inl (Errorf ''error parsing FileList into []FileDetail: '' (Some err))"
  proof (cases ok)
    case True
    with a e obtain err2 where "Unmarshal_slice detail c = Inl err2" by auto
    with assms a e True show ?thesis by (simp add: UnmarshalFileList_def)
  next
    case False
    with assms a e show ?thesis by (simp add: UnmarshalFileList_def)
  qed
qed

theorem UnmarshalFileList_recovery_order_witness:
  \<open>looksLikeFalseLiteral no_tables ''[{}] false'' \<and>
   UnmarshalFileList no_tables structElem structElem
       \<lparr>FileListMode = Some ''string'', FileList = Some ''"[{}] false"''\<rparr> =
     Inr (FileDetails (Slice [[]])) \<and>
   UnmarshalFileList no_tables structElem structElem
       \<lparr>FileListMode = Some ''string'', FileList = Some ''" false "''\<rparr> =
     Inr (FileDetails (Slice [])) \<and>
   Unmarshal_slice structElem ''[1] false'' = Inl SyntaxError \<and>
   extractJSONArray ''[1] false'' = (''[1]'', True) \<and>
   Unmarshal_slice structElem ''[1]'' = Inl UnmarshalTypeError \<and>
   UnmarshalFileList no_tables structElem structElem
       \<lparr>FileListMode = Some ''string'', FileList = Some ''"[1] false"''\<rparr> =
     Inr (FileDetails (Slice [])) \<and>
   UnmarshalFileList no_tables structElem structElem
       \<lparr>FileListMode = Some ''string'', FileList = Some ''"[1] fx"''\<rparr> =
     Inl (Errorf ''error parsing FileList into []FileDetail: '' (Some SyntaxError))\<close>
proof -
  let ?sr = "\<lambda>p. \<lparr>FileListMode = Some ''string'', FileList = Some p\<rparr>"
  have m: "FileListMode (?sr p) = Some ''string''" "FileList (?sr p) = Some p" for p
    by simp_all
  have u1: \<open>Unmarshal_string ''"[{}] false"'' = Inr ''[{}] false''\<close> by code_simp
  have t1: \<open>TrimSpace ''[{}] false'' = ''[{}] false''\<close> by code_simp
  have p1: \<open>Unmarshal_slice structElem ''[{}] false'' = Inl SyntaxError\<close> by code_simp
  have e1: \<open>extractJSONArray ''[{}] false'' = (''[{}]'', True)\<close> by code_simp
  have c1: \<open>Unmarshal_slice structElem ''[{}]'' = Inr (Slice [[]])\<close> by code_simp
  have l1: \<open>looksLikeFalseLiteral no_tables ''[{}] false''\<close> by code_simp
  have u2: \<open>Unmarshal_string ''" false "'' = Inr '' false ''\<close> by code_simp
  have t2: \<open>TrimSpace '' false '' = ''false''\<close> by code_simp
  have p2: \<open>Unmarshal_slice structElem ''false'' = Inl UnmarshalTypeError\<close> by code_simp
  have e2: \<open>extractJSONArray ''false'' = ('''', False)\<close> by code_simp
  have l2: \<open>looksLikeFalseLiteral no_tables ''false''\<close> by code_simp
  have u3: \<open>Unmarshal_string ''"[1] false"'' = Inr ''[1] false''\<close> by code_simp
  have t3: \<open>TrimSpace ''[1] false'' = ''[1] false''\<close> by code_simp
  have p3: \<open>Unmarshal_slice structElem ''[1] false'' = Inl SyntaxError\<close> by code_simp
  have e3: \<open>extractJSONArray ''[1] false'' = (''[1]'', True)\<close> by code_simp
  have c3: \<open>Unmarshal_slice structElem ''[1]'' = Inl UnmarshalTypeError\<close> by code_simp
  have l3: \<open>looksLikeFalseLiteral no_tables ''[1] false''\<close> by code_simp
  have u4: \<open>Unmarshal_string ''"[1] fx"'' = Inr ''[1] fx''\<close> by code_simp
  have t4: \<open>TrimSpace ''[1] fx'' = ''[1] fx''\<close> by code_simp
  have p4: \<open>Unmarshal_slice structElem ''[1] fx'' = Inl SyntaxError\<close> by code_simp
  have e4: \<open>extractJSONArray ''[1] fx'' = (''[1]'', True)\<close> by code_simp
  have l4: \<open>\<not> looksLikeFalseLiteral no_tables ''[1] fx''\<close> by code_simp
  have r1: \<open>UnmarshalFileList no_tables structElem structElem (?sr ''"[{}] false"'') =
      Inr (FileDetails (Slice [[]]))\<close>
    using UnmarshalFileList_recovery_order [OF m u1, of structElem SyntaxError no_tables structElem]
      t1 p1 e1 c1 by simp
  have r2: \<open>UnmarshalFileList no_tables structElem structElem (?sr ''" false "'') =
      Inr (FileDetails (Slice []))\<close>
    using UnmarshalFileList_recovery_order [OF m u2, of structElem UnmarshalTypeError no_tables structElem]
      t2 p2 e2 l2 by simp
  have r3: \<open>UnmarshalFileList no_tables structElem structElem (?sr ''"[1] false"'') =
      Inr (FileDetails (Slice []))\<close>
    using UnmarshalFileList_recovery_order [OF m u3, of structElem SyntaxError no_tables structElem]
      t3 p3 e3 c3 l3 by simp
  have r4: \<open>UnmarshalFileList no_tables structElem structElem (?sr ''"[1] fx"'') =
      Inl (Errorf ''error parsing FileList into []FileDetail: '' (Some SyntaxError))\<close>
    using UnmarshalFileList_recovery_order [OF m u4, of structElem SyntaxError no_tables structElem]
      t4 p4 e4 c3 l4 by simp
  from l1 r1 r2 p3 e3 c3 r3 r4 show ?thesis by (intro conjI)
qed


text \<open>
  C2. As stated the claim fails: with mode \<open>string\<close> and the payload \<^verbatim>\<open>"[]"\<close> the
  first parse succeeds with an empty array and the function returns that empty list,
  though the text does not match the recognizer.
\<close>

theorem UnmarshalFileList_empty_array_counterexample:
  \<open>Unmarshal_string ''"[]"'' = Inr ''[]'' \<and>
   TrimSpace ''[]'' = ''[]'' \<and>
   Unmarshal_slice structElem ''[]'' = Inr (Slice []) \<and>
   \<not> looksLikeFalseLiteral no_tables ''[]'' \<and>
   UnmarshalFileList no_tables structElem structElem
       \<lparr>FileListMode = Some ''string'', FileList = Some ''"[]"''\<rparr> =
     Inr (FileDetails (Slice [])) \<and>
   file_count (FileDetails (Slice []) :: ((string \<times> json) list, (string \<times> json) list) file_list) = 0\<close>
  by (intro conjI; code_simp)

text \<open>
  C2, amended. An empty list is returned only when a parse of a JSON array succeeds and
  gives an empty (or \<^verbatim>\<open>nil\<close>) slice (the direct parse in \<open>json\<close> mode, the first
  parse in \<open>string\<close> mode, or the parse of the extracted candidate), or when, after the
  first parse has failed and no candidate parses, the trimmed text matches the
  recognizer.
\<close>

theorem UnmarshalFileList_empty_list_origin:
  assumes "UnmarshalFileList u detail entry sr = Inr fl" and "file_count fl = 0"
  shows
    "(\<exists>raw s. FileListMode sr = Some ''json'' \<and> FileList sr = Some raw \<and>
        Unmarshal_slice entry raw = Inr s \<and> elements s = [] \<and> fl = FileListEntries s) \<or>
     (\<exists>raw rawString. FileListMode sr = Some ''string'' \<and> FileList sr = Some raw \<and>
        Unmarshal_string raw = Inr rawString \<and>
        ((\<exists>s. Unmarshal_slice detail (TrimSpace rawString) = Inr s \<and> elements s = [] \<and>
              fl = FileDetails s) \<or>
         (\<exists>err candidate s. Unmarshal_slice detail (TrimSpace rawString) = Inl err \<and>
              extractJSONArray (TrimSpace rawString) = (candidate, True) \<and>
              Unmarshal_slice detail candidate = Inr s \<and> elements s = [] \<and> fl = FileDetails s) \<or>
         (\<exists>err. Unmarshal_slice detail (TrimSpace rawString) = Inl err \<and>
              (\<forall>candidate. extractJSONArray (TrimSpace rawString) = (candidate, True) \<longrightarrow>
                 (\<exists>err2. Unmarshal_slice detail candidate = Inl err2)) \<and>
              looksLikeFalseLiteral u (TrimSpace rawString) \<and> fl = FileDetails (Slice []))))"
proof -
  from assms(1) obtain mode raw where
    f: "FileListMode sr = Some mode" "FileList sr = Some raw"
    by (auto simp: UnmarshalFileList_def split: option.splits)
  from assms(1) f have mode: "mode = ''string'' \<or> mode = ''json''"
    by (auto simp: UnmarshalFileList_def split: if_splits)
  then show ?thesis
  proof
    assume j: "mode = ''json''"
    with assms f show ?thesis
      by (auto simp: UnmarshalFileList_def split: sum.splits)
  next
    assume s: "mode = ''string''"
    with assms(1) f obtain rawString where u: "Unmarshal_string raw = Inr rawString"
      by (auto simp: UnmarshalFileList_def split: sum.splits)
    let ?t = "TrimSpace rawString"
    show ?thesis
    proof (cases "Unmarshal_slice detail ?t")
      case (Inr fileList)
      with assms f s u have "fl = FileDetails fileList" "elements fileList = []"
        by (auto simp: UnmarshalFileList_def)
      with f s u Inr show ?thesis by auto
    next
      case (Inl err)
      obtain c ok where e: "extractJSONArray ?t = (c, ok)"
        by (cases "extractJSONArray ?t") auto
      show ?thesis
      proof (cases "ok \<and> (\<exists>fileList. Unmarshal_slice detail c = Inr fileList)")
        case True
        then obtain fileList where c: "ok" "Unmarshal_slice detail c = Inr fileList" by blast
        with assms f s u Inl e have "fl = FileDetails fileList" "elements fileList = []"
          by (auto simp: UnmarshalFileList_def)
        with f s u Inl e c show ?thesis by auto
      next
        case False
        then have nc: "\<forall>candidate. extractJSONArray ?t = (candidate, True) \<longrightarrow>
            (\<exists>err2. Unmarshal_slice detail candidate = Inl err2)"
          using e by (cases "Unmarshal_slice detail c") auto
        from False assms(1) f s u Inl e
        have "looksLikeFalseLiteral u ?t \<and> fl = FileDetails (Slice [])"
          by (cases "Unmarshal_slice detail c"; cases ok)
            (auto simp: UnmarshalFileList_def split: if_splits)
        with f s u Inl nc show ?thesis by blast
      qed
    qed
  qed
qed

theorem UnmarshalFileList_empty_list_origin_witness:
  \<open>UnmarshalFileList no_tables structElem structElem
       \<lparr>FileListMode = Some ''string'', FileList = Some ''" false "''\<rparr> =
     Inr (FileDetails (Slice [])) \<and>
   file_count (FileDetails (Slice []) :: ((string \<times> json) list, (string \<times> json) list) file_list) = 0 \<and>
   Unmarshal_slice structElem ''false'' = Inl UnmarshalTypeError \<and>
   extractJSONArray ''false'' = ('''', False) \<and>
   looksLikeFalseLiteral no_tables (TrimSpace '' false '')\<close>
proof -
  have r: \<open>UnmarshalFileList no_tables structElem structElem
       \<lparr>FileListMode = Some ''string'', FileList = Some ''" false "''\<rparr> =
     Inr (FileDetails (Slice []))\<close> by code_simp
  have z: "file_count (FileDetails (Slice []) :: ((string \<times> json) list, (string \<times> json) list) file_list) = 0"
    by simp
  have u2: \<open>Unmarshal_string ''" false "'' = Inr '' false ''\<close> by code_simp
  have t2: \<open>TrimSpace '' false '' = ''false''\<close> by code_simp
  have p2: \<open>Unmarshal_slice structElem ''false'' = Inl UnmarshalTypeError\<close> by code_simp
  have e2: \<open>extractJSONArray ''false'' = ('''', False)\<close> by code_simp
  from UnmarshalFileList_empty_list_origin [OF r z] u2 t2 p2 e2
  have "looksLikeFalseLiteral no_tables (TrimSpace '' false '')" by auto
  with r z p2 e2 show ?thesis by (intro conjI)
qed


text \<open>
  C7. Whenever the mode tag or the raw payload is absent (\<^verbatim>\<open>nil\<close>), whatever the
  other field holds, \<^verbatim>\<open>UnmarshalFileList\<close> returns the missing-input error; the
  \<^verbatim>\<open>switch\<close> on the mode is not reached.
\<close>

theorem UnmarshalFileList_missing_input:
  assumes "FileListMode sr = None \<or> FileList sr = None"
  shows "UnmarshalFileList u detail entry sr =
    Inl (Errorf ''FileListMode or FileList are empty, cannot proceed with unmarshaling'' None)"
  using assms by (auto simp: UnmarshalFileList_def split: option.splits)

theorem UnmarshalFileList_missing_input_witness:
  "UnmarshalFileList no_tables structElem structElem \<lparr>FileListMode = None, FileList = Some ''[]''\<rparr> =
     Inl (Errorf ''FileListMode or FileList are empty, cannot proceed with unmarshaling'' None) \<and>
   UnmarshalFileList no_tables structElem structElem \<lparr>FileListMode = Some ''json'', FileList = None\<rparr> =
     Inl (Errorf ''FileListMode or FileList are empty, cannot proceed with unmarshaling'' None) \<and>
   UnmarshalFileList no_tables structElem structElem \<lparr>FileListMode = Some ''xml'', FileList = None\<rparr> =
     Inl (Errorf ''FileListMode or FileList are empty, cannot proceed with unmarshaling'' None)"
  using
    UnmarshalFileList_missing_input [of "\<lparr>FileListMode = None, FileList = Some ''[]''\<rparr>"
      no_tables structElem structElem]
    UnmarshalFileList_missing_input [of "\<lparr>FileListMode = Some ''json'', FileList = None\<rparr>"
      no_tables structElem structElem]
    UnmarshalFileList_missing_input [of "\<lparr>FileListMode = Some ''xml'', FileList = None\<rparr>"
      no_tables structElem structElem]
  by simp

text \<open>
  C8. With a payload present and a mode tag present that is neither \<open>string\<close> nor
  \<open>json\<close>, \<^verbatim>\<open>UnmarshalFileList\<close> fails with the unknown-mode error, whose message
  ends with the offending mode value.
\<close>

theorem UnmarshalFileList_unknown_mode:
  assumes "FileListMode sr = Some mode" "FileList sr = Some raw"
    and "mode \<noteq> ''string''" "mode \<noteq> ''json''"
  shows "UnmarshalFileList u detail entry sr = Inl (Errorf (''unknown FileListMode: '' @ mode) None)"
  using assms by (simp add: UnmarshalFileList_def)

theorem UnmarshalFileList_unknown_mode_witness:
  "UnmarshalFileList no_tables structElem structElem \<lparr>FileListMode = Some ''xml'', FileList = Some ''[]''\<rparr> =
     Inl (Errorf ''unknown FileListMode: xml'' None) \<and>
   UnmarshalFileList no_tables structElem structElem \<lparr>FileListMode = Some ''String'', FileList = Some ''[]''\<rparr> =
     Inl (Errorf ''unknown FileListMode: String'' None)"
  using
    UnmarshalFileList_unknown_mode [of "\<lparr>FileListMode = Some ''xml'', FileList = Some ''[]''\<rparr>"
      "''xml''" "''[]''" no_tables structElem structElem]
    UnmarshalFileList_unknown_mode [of "\<lparr>FileListMode = Some ''String'', FileList = Some ''[]''\<rparr>"
      "''String''" "''[]''" no_tables structElem structElem]
  by simp

text \<open>
  C6. In \<open>string\<close> mode, when the raw bytes do not decode as a JSON string, the function
  fails at once with the error of that stage, carrying the decoding error; this holds for
  every such payload, also for those (as in the instances that follow) in which the
  extractor would find an array that parses and the recognizer would match, so neither
  takes part.
\<close>

theorem UnmarshalFileList_string_layer_failure:
  assumes "FileListMode sr = Some ''string''" "FileList sr = Some raw"
    and "Unmarshal_string raw = Inl err"
  shows "UnmarshalFileList u detail entry sr =
    Inl (Errorf ''error parsing FileList into string: '' (Some err))"
  using assms by (simp add: UnmarshalFileList_def)

theorem UnmarshalFileList_string_layer_failure_witness:
  \<open>Unmarshal_string ''[{}] false'' = Inl SyntaxError \<and>
   extractJSONArray ''[{}] false'' = (''[{}]'', True) \<and>
   Unmarshal_slice structElem ''[{}]'' = Inr (Slice [[]]) \<and>
   looksLikeFalseLiteral no_tables ''[{}] false'' \<and>
   UnmarshalFileList no_tables structElem structElem
       \<lparr>FileListMode = Some ''string'', FileList = Some ''[{}] false''\<rparr> =
     Inl (Errorf ''error parsing FileList into string: '' (Some SyntaxError)) \<and>
   Unmarshal_string ''false'' = Inl UnmarshalTypeError \<and>
   looksLikeFalseLiteral no_tables ''false'' \<and>
   UnmarshalFileList no_tables structElem structElem
       \<lparr>FileListMode = Some ''string'', FileList = Some ''false''\<rparr> =
     Inl (Errorf ''error parsing FileList into string: '' (Some UnmarshalTypeError))\<close>
proof -
  have a: \<open>Unmarshal_string ''[{}] false'' = Inl SyntaxError\<close> by code_simp
  have b: \<open>Unmarshal_string ''false'' = Inl UnmarshalTypeError\<close> by code_simp
  have c: \<open>extractJSONArray ''[{}] false'' = (''[{}]'', True)\<close> by code_simp
  have d: \<open>Unmarshal_slice structElem ''[{}]'' = Inr (Slice [[]])\<close> by code_simp
  have e: \<open>looksLikeFalseLiteral no_tables ''[{}] false''\<close> by code_simp
  have f: \<open>looksLikeFalseLiteral no_tables ''false''\<close> by code_simp
  note r1 = UnmarshalFileList_string_layer_failure
    [of "\<lparr>FileListMode = Some ''string'', FileList = Some ''[{}] false''\<rparr>" "''[{}] false''"
      SyntaxError no_tables structElem structElem, OF _ _ a]
  note r2 = UnmarshalFileList_string_layer_failure
    [of "\<lparr>FileListMode = Some ''string'', FileList = Some ''false''\<rparr>" "''false''"
      UnmarshalTypeError no_tables structElem structElem, OF _ _ b]
  from a b c d e f r1 r2 show ?thesis by simp
qed

text \<open>
  C5. In \<open>json\<close> mode, when the payload does not parse as an array of
  \<^verbatim>\<open>FileListEntry\<close>, the function fails at once with the parse error of that mode.
  The result does not depend on the Unicode tables (which only the recognizer reads) nor
  on the decoder of \<^verbatim>\<open>FileDetail\<close>, and it is the error also on payloads (as in
  the instances that follow) in which the extractor would find an array that parses and
  the recognizer would match: there is no recovery in this mode.
\<close>

theorem UnmarshalFileList_json_mode_failure:
  assumes "FileListMode sr = Some ''json''" "FileList sr = Some raw"
    and "Unmarshal_slice entry raw = Inl err"
  shows "UnmarshalFileList u detail entry sr =
           Inl (Errorf ''error parsing FileList into []FileListEntry: '' (Some err)) \<and>
         UnmarshalFileList u' detail' entry sr = UnmarshalFileList u detail entry sr"
  using assms by (simp add: UnmarshalFileList_def)

theorem UnmarshalFileList_json_mode_failure_witness:
  \<open>Unmarshal_slice structElem ''[{}] false'' = Inl SyntaxError \<and>
   extractJSONArray ''[{}] false'' = (''[{}]'', True) \<and>
   Unmarshal_slice structElem ''[{}]'' = Inr (Slice [[]]) \<and>
   looksLikeFalseLiteral no_tables ''[{}] false'' \<and>
   UnmarshalFileList no_tables structElem structElem
       \<lparr>FileListMode = Some ''json'', FileList = Some ''[{}] false''\<rparr> =
     Inl (Errorf ''error parsing FileList into []FileListEntry: '' (Some SyntaxError)) \<and>
   Unmarshal_slice structElem ''false'' = Inl UnmarshalTypeError \<and>
   looksLikeFalseLiteral no_tables ''false'' \<and>
   UnmarshalFileList no_tables structElem structElem
       \<lparr>FileListMode = Some ''json'', FileList = Some ''false''\<rparr> =
     Inl (Errorf ''error parsing FileList into []FileListEntry: '' (Some UnmarshalTypeError))\<close>
proof -
  have a: \<open>Unmarshal_slice structElem ''[{}] false'' = Inl SyntaxError\<close> by code_simp
  have b: \<open>Unmarshal_slice structElem ''false'' = Inl UnmarshalTypeError\<close> by code_simp
  have c: \<open>extractJSONArray ''[{}] false'' = (''[{}]'', True)\<close> by code_simp
  have d: \<open>Unmarshal_slice structElem ''[{}]'' = Inr (Slice [[]])\<close> by code_simp
  have e: \<open>looksLikeFalseLiteral no_tables ''[{}] false''\<close> by code_simp
  have f: \<open>looksLikeFalseLiteral no_tables ''false''\<close> by code_simp
  note r1 = UnmarshalFileList_json_mode_failure
    [of "\<lparr>FileListMode = Some ''json'', FileList = Some ''[{}] false''\<rparr>" "''[{}] false''"
      structElem SyntaxError no_tables structElem, OF _ _ a, THEN conjunct1]
  note r2 = UnmarshalFileList_json_mode_failure
    [of "\<lparr>FileListMode = Some ''json'', FileList = Some ''false''\<rparr>" "''false''"
      structElem UnmarshalTypeError no_tables structElem, OF _ _ b, THEN conjunct1]
  from a b c d e f r1 r2 show ?thesis by simp
qed

end
